(* ===== verification/JobRaft_Prelude.thy ===== *)
theory JobRaft_Prelude
  imports Main "HOL-Library.Word" "HOL-Library.AList" "HOL-Library.List_Lexorder" "HOL-Library.Char_ord"
begin

text \<open>
  Shared vocabulary of the development: the Go values every component uses (instants, durations,
  slices, maps, 64-bit integers, errors, decimal printing, the clock) and the generic lemmas
  about them.

  \<^item> An instant \<^verbatim>\<open>time.Time\<close> is the number of nanoseconds since Go's zero time (year 1), so
    \<^verbatim>\<open>IsZero\<close> is equality with 0, \<^verbatim>\<open>Before\<close>/\<^verbatim>\<open>After\<close> are the order of the integers and
    \<^verbatim>\<open>Add\<close> is addition. A \<^verbatim>\<open>time.Duration\<close> is its number of nanoseconds.
  \<^item> A slice is an optional list: \<open>None\<close> is the nil slice.
  \<^item> A Go map is an association list with distinct keys. The order of the list stands for the
    order in which a \<^verbatim>\<open>range\<close> loop happens to visit the map, which Go leaves open; the
    theorems hold for every list, and the results that do not depend on the order say so.
  \<^item> Successive calls of \<^verbatim>\<open>time.Now\<close> inside one operation are the values of a clock
    \<open>clk 0, clk 1, \<dots>\<close>; an operation that makes two readings may see two different
    instants. \<open>later k clk\<close> skips the first \<open>k\<close> readings.
\<close>

named_theorems gmap_simps "lookup after an update or a deletion in a Go map"
named_theorems task_simps "record transformations of a task"
named_theorems sched_simps "fields of the scheduler that an operation leaves alone"

section \<open>Instants, slices and integers\<close>

type_synonym gtime = int
type_synonym duration = int
type_synonym 'a slice = "'a list option"
type_synonym clock = "nat \<Rightarrow> gtime"
type_synonym ('k, 'v) gmap = "('k \<times> 'v) list"

definition later :: "nat \<Rightarrow> clock \<Rightarrow> clock" where
  "later k clk = (\<lambda>n. clk (n + k))"

lemma later_apply [simp]: "later k clk n = clk (n + k)"
  by (simp add: later_def)

lemma mono_later [intro, simp]: "mono clk \<Longrightarrow> mono (later k clk)"
  by (simp add: mono_def)

lemma mono_first: "mono (clk :: clock) \<Longrightarrow> clk 0 \<le> clk n"
  by (erule monoD) simp

text \<open>Elements of a slice (none for nil), and \<^verbatim>\<open>append([]T(nil), s...)\<close>, which is nil when
  there is nothing to append.\<close>

definition elems :: "'a slice \<Rightarrow> 'a list" where
  "elems s = (case s of None \<Rightarrow> [] | Some xs \<Rightarrow> xs)"

definition append_nil :: "'a slice \<Rightarrow> 'a slice" where
  "append_nil s = (if elems s = [] then None else Some (elems s))"

lemma elems_simps [simp]: "elems None = []" "elems (Some xs) = xs"
  by (simp_all add: elems_def)

lemma elems_append_nil [simp]: "elems (append_nil s) = elems s"
  by (simp add: append_nil_def)

lemma append_nil_idem [simp]: "append_nil (append_nil s) = append_nil s"
  by (simp add: append_nil_def)

lemma append_nil_None [simp]: "append_nil None = None"
  by (simp add: append_nil_def)

text \<open>Go's \<^verbatim>\<open>int\<close> has 64 bits: \<^verbatim>\<open>x++\<close> and \<^verbatim>\<open>x--\<close> wrap around.\<close>

definition inc64 :: "int \<Rightarrow> int" where
  "inc64 x = (if x = 2 ^ 63 - 1 then - (2 ^ 63) else x + 1)"

definition dec64 :: "int \<Rightarrow> int" where
  "dec64 x = (if x = - (2 ^ 63) then 2 ^ 63 - 1 else x - 1)"

text \<open>Differences of instants are clipped to the range of a \<^verbatim>\<open>time.Duration\<close>.\<close>

definition sat64 :: "int \<Rightarrow> int" where
  "sat64 x = max (- (2 ^ 63)) (min (2 ^ 63 - 1) x)"

lemma dec64_inc64: "- (2 ^ 63) \<le> x \<Longrightarrow> x < 2 ^ 63 \<Longrightarrow> dec64 (inc64 x) = x"
  by (auto simp: dec64_def inc64_def)

lemma inc64_below: "x \<noteq> 2 ^ 63 - 1 \<Longrightarrow> inc64 x = x + 1"
  by (simp add: inc64_def)

section \<open>Errors\<close>

text \<open>The sentinel errors of the packages, \<^verbatim>\<open>errors.New\<close>/\<^verbatim>\<open>fmt.Errorf\<close> values made on the
  spot, and errors wrapped with \<^verbatim>\<open>%w\<close>. \<open>Diverges\<close> is no Go error: it marks a call that
  does not return, and the development proves that it never comes up.\<close>

datatype error =
    ErrInvalidTask | ErrCanceled | ErrNotFound | ErrConflict | ErrDuplicateIdempotencyKey
  | ErrDuplicateID | ErrNoTaskAvailable | ErrExist | ErrInvalid | ErrNoTask | ErrBackpressure
  | ErrClaimLost | ErrContextCanceled | ErrDeadlineExceeded
  | ErrNew string | ErrWrap string error | ErrIO string | Diverges

fun error_text :: "error \<Rightarrow> string" where
  "error_text ErrInvalidTask = ''invalid task''"
| "error_text ErrCanceled = ''task canceled''"
| "error_text ErrNotFound = ''task not found''"
| "error_text ErrConflict = ''task changed since it was read''"
| "error_text ErrDuplicateIdempotencyKey = ''idempotency key already exists''"
| "error_text ErrDuplicateID = ''task id already exists''"
| "error_text ErrNoTaskAvailable = ''no task available''"
| "error_text ErrExist = ''file already exists''"
| "error_text ErrInvalid = ''invalid argument''"
| "error_text ErrNoTask = ''no task available''"
| "error_text ErrBackpressure = ''scheduler queue is full''"
| "error_text ErrClaimLost = ''task is no longer claimable''"
| "error_text ErrContextCanceled = ''context canceled''"
| "error_text ErrDeadlineExceeded = ''context deadline exceeded''"
| "error_text (ErrNew msg) = msg"
| "error_text (ErrWrap msg e) = msg @ '': '' @ error_text e"
| "error_text (ErrIO msg) = msg"
| "error_text Diverges = []"

fun errors_Is :: "error \<Rightarrow> error \<Rightarrow> bool" where
  "errors_Is (ErrWrap msg e) target = (ErrWrap msg e = target \<or> errors_Is e target)"
| "errors_Is e target = (e = target)"

lemma errors_Is_refl [simp]: "errors_Is e e"
  by (cases e) auto

section \<open>Go maps as association lists\<close>

lemma map_of_gput [gmap_simps]: "map_of (AList.update k v m) = (map_of m)(k \<mapsto> v)"
  by (rule update_conv')

lemma map_of_gdel [gmap_simps]: "map_of (AList.delete k m) = (map_of m)(k := None)"
  by (rule delete_conv')

lemma distinct_gput [simp]: "distinct (map fst m) \<Longrightarrow> distinct (map fst (AList.update k v m))"
  by (rule distinct_update)

lemma distinct_gdel [simp]: "distinct (map fst m) \<Longrightarrow> distinct (map fst (AList.delete k m))"
  by (rule distinct_delete)

lemma gmap_value_iff:
  "distinct (map fst m) \<Longrightarrow> v \<in> set (map snd m) \<longleftrightarrow> (\<exists>k. map_of m k = Some v)"
  by force

lemma gmap_values_gput:
  assumes "distinct (map fst m)"
  shows "set (map snd (AList.update k v m)) = insert v {w. \<exists>j. j \<noteq> k \<and> map_of m j = Some w}"
proof -
  have "w \<in> set (map snd (AList.update k v m)) \<longleftrightarrow> w = v \<or> (\<exists>j. j \<noteq> k \<and> map_of m j = Some w)" for w
    using gmap_value_iff [of "AList.update k v m" w] assms by (auto simp: gmap_simps)
  then show ?thesis by blast
qed

text \<open>Replacing the values of a map in a \<^verbatim>\<open>range\<close> loop.\<close>

lemma map_of_map_values:
  "map_of (map (\<lambda>(k, v). (k, f v)) m) k = map_option f (map_of m k)"
  by (induction m) auto

lemma fst_map_values [simp]: "map fst (map (\<lambda>(k, v). (k, f v)) m) = map fst m"
  by (induction m) auto

lemma finite_gmap [simp]: "finite (dom (map_of m))"
  by (rule finite_dom_map_of)

lemma card_gmap_le: "card (dom (map_of m)) \<le> length m"
proof -
  have "dom (map_of m) = set (map fst m)" by (simp add: dom_map_of_conv_image_fst)
  then show ?thesis by (metis card_length length_map)
qed

section \<open>Printing numbers\<close>

definition digit :: "nat \<Rightarrow> char" where
  "digit n = char_of (48 + n)"

fun dec_nat :: "nat \<Rightarrow> string" where
  "dec_nat n = (if n < 10 then [digit n] else dec_nat (n div 10) @ [digit (n mod 10)])"

declare dec_nat.simps [simp del]

definition dec_int :: "int \<Rightarrow> string" where
  "dec_int i = (if i < 0 then ''-'' @ dec_nat (nat (- i)) else dec_nat (nat i))"

text \<open>Printing of large numbers evaluates on binary integers.\<close>

definition dec_abs :: "int \<Rightarrow> string" where
  "dec_abs i = dec_nat (nat i)"

lemma dec_abs_code [code]:
  "dec_abs i = (if i < 10 then [digit (nat i)] else dec_abs (i div 10) @ [digit (nat (i mod 10))])"
proof -
  have "nat i < 10 \<longleftrightarrow> i < 10" by arith
  then show ?thesis
    by (simp add: dec_abs_def dec_nat.simps [of "nat i"] nat_div_distrib nat_mod_distrib)
qed

lemma dec_int_code [code]:
  "dec_int i = (if i < 0 then ''-'' @ dec_abs (- i) else dec_abs i)"
  by (simp add: dec_int_def dec_abs_def)

text \<open>\<^verbatim>\<open>%06d\<close> of a number: at least six digits, filled with zeros on the left.\<close>

definition pad6 :: "nat \<Rightarrow> string" where
  "pad6 n = replicate (6 - length (dec_nat n)) (CHR ''0'') @ dec_nat n"

fun undec :: "nat \<Rightarrow> string \<Rightarrow> nat" where
  "undec a [] = a"
| "undec a (c # cs) = undec (10 * a + (of_char c - 48)) cs"

lemma undec_append: "undec a (xs @ ys) = undec (undec a xs) ys"
  by (induction xs arbitrary: a) auto

lemma of_char_digit: "n < 10 \<Longrightarrow> of_char (digit n) = 48 + n"
  by (simp add: digit_def)

lemma undec_dec_nat: "undec 0 (dec_nat n) = n"
proof (induction n rule: dec_nat.induct)
  case (1 n)
  show ?case
  proof (cases "n < 10")
    case True
    then show ?thesis by (subst dec_nat.simps) (simp add: of_char_digit)
  next
    case False
    with "1.IH" show ?thesis by (subst dec_nat.simps) (simp add: undec_append of_char_digit)
  qed
qed

lemma dec_nat_inj: "dec_nat m = dec_nat n \<Longrightarrow> m = n"
  by (metis undec_dec_nat)

lemma dec_nat_digits: "c \<in> set (dec_nat n) \<Longrightarrow> 48 \<le> (of_char c :: nat)"
proof (induction n rule: dec_nat.induct)
  case (1 n)
  show ?case
  proof (cases "n < 10")
    case True
    with "1.prems" show ?thesis by (subst (asm) dec_nat.simps) (simp add: of_char_digit)
  next
    case False
    with "1.prems" have "c \<in> set (dec_nat (n div 10)) \<or> c = digit (n mod 10)"
      by (subst (asm) dec_nat.simps) auto
    with False "1.IH" show ?thesis by (auto simp: of_char_digit)
  qed
qed

lemma dec_nat_no_minus: "CHR ''-'' \<notin> set (dec_nat n)"
  using dec_nat_digits [of "CHR ''-''" n] by auto

lemma dec_int_inj: "dec_int i = dec_int j \<Longrightarrow> i = j"
proof -
  have no: "dec_nat m \<noteq> CHR ''-'' # xs" for m xs
    using dec_nat_no_minus [of m] by (metis list.set_intros(1))
  assume "dec_int i = dec_int j"
  then show ?thesis
    using no no [symmetric] by (auto simp: dec_int_def dest!: dec_nat_inj split: if_splits)
qed

lemma length_dec_nat: "n < 10 ^ k \<Longrightarrow> 0 < k \<Longrightarrow> length (dec_nat n) \<le> k"
proof (induction k arbitrary: n)
  case 0
  then show ?case by simp
next
  case (Suc k)
  show ?case
  proof (cases "n < 10")
    case True
    then show ?thesis by (subst dec_nat.simps) simp
  next
    case False
    have "0 < k"
      using False Suc.prems(1) by (cases k) auto
    moreover have "n div 10 < 10 ^ k"
      using Suc.prems(1) by (simp add: less_mult_imp_div_less mult.commute)
    ultimately have "length (dec_nat (n div 10)) \<le> k" by (intro Suc.IH)
    with False show ?thesis by (subst dec_nat.simps) simp
  qed
qed

lemma length_pad6: "n < 1000000 \<Longrightarrow> length (pad6 n) = 6"
  using length_dec_nat [of n 6] by (simp add: pad6_def)

lemma undec_zeros: "undec 0 (replicate k (CHR ''0'')) = 0"
  by (induction k) auto

lemma pad6_inj: "pad6 m = pad6 n \<Longrightarrow> m = n"
  by (metis pad6_def undec_append undec_zeros undec_dec_nat)

end
