(* ===== verification/Task_Model.thy ===== *)
theory Task_Model
  imports JobRaft_Prelude
begin

text \<open>
  The domain model of \<^verbatim>\<open>src/internal/task\<close>: the task record, its status values, \<^verbatim>\<open>Validate\<close>,
  \<^verbatim>\<open>IsTerminal\<close> (task.go) and the identifier generator (id.go). The status is a string type in
  the source, so it is a string here; the six constants are named as the source names them.
\<close>

section \<open>Status\<close>

type_synonym status = string

definition StatusPending :: status where "StatusPending = ''pending''"

definition StatusRunning :: status where "StatusRunning = ''running''"

definition StatusSuccess :: status where "StatusSuccess = ''success''"

definition StatusFailed :: status where "StatusFailed = ''failed''"

definition StatusRetrying :: status where "StatusRetrying = ''retrying''"

definition StatusCanceled :: status where "StatusCanceled = ''canceled''"

lemmas status_defs = StatusPending_def StatusRunning_def StatusSuccess_def StatusFailed_def
  StatusRetrying_def StatusCanceled_def

lemma status_distinct [simp]:
  "StatusPending \<noteq> StatusRunning" "StatusPending \<noteq> StatusSuccess" "StatusPending \<noteq> StatusFailed"
  "StatusPending \<noteq> StatusRetrying" "StatusPending \<noteq> StatusCanceled"
  "StatusRunning \<noteq> StatusPending" "StatusRunning \<noteq> StatusSuccess" "StatusRunning \<noteq> StatusFailed"
  "StatusRunning \<noteq> StatusRetrying" "StatusRunning \<noteq> StatusCanceled"
  "StatusSuccess \<noteq> StatusPending" "StatusSuccess \<noteq> StatusRunning" "StatusSuccess \<noteq> StatusFailed"
  "StatusSuccess \<noteq> StatusRetrying" "StatusSuccess \<noteq> StatusCanceled"
  "StatusFailed \<noteq> StatusPending" "StatusFailed \<noteq> StatusRunning" "StatusFailed \<noteq> StatusSuccess"
  "StatusFailed \<noteq> StatusRetrying" "StatusFailed \<noteq> StatusCanceled"
  "StatusRetrying \<noteq> StatusPending" "StatusRetrying \<noteq> StatusRunning" "StatusRetrying \<noteq> StatusSuccess"
  "StatusRetrying \<noteq> StatusFailed" "StatusRetrying \<noteq> StatusCanceled"
  "StatusCanceled \<noteq> StatusPending" "StatusCanceled \<noteq> StatusRunning" "StatusCanceled \<noteq> StatusSuccess"
  "StatusCanceled \<noteq> StatusFailed" "StatusCanceled \<noteq> StatusRetrying"
  by (simp_all add: status_defs)

section \<open>Task\<close>

record retry_policy =
  MaxAttempts :: int
  Backoff :: duration

record task =
  ID :: string
  IdempotencyKey :: string
  Name :: string
  Priority :: int
  DependsOn :: "string slice"
  Payload :: "char slice"
  Result :: "char slice"
  Status :: status
  Attempts :: int
  Retry :: retry_policy
  RunAt :: gtime
  Schedule :: duration
  RunCount :: int
  Timeout :: duration
  LastError :: string
  CreatedAt :: gtime
  StartedAt :: "gtime option"
  FinishedAt :: "gtime option"
  WorkerID :: string
  LeaseUntil :: "gtime option"
  LeaseToken :: string

text \<open>The zero value \<^verbatim>\<open>task.Task{}\<close>.\<close>

definition zero_task :: task where
  "zero_task = \<lparr>ID = [], IdempotencyKey = [], Name = [], Priority = 0, DependsOn = None,
     Payload = None, Result = None, Status = [], Attempts = 0,
     Retry = \<lparr>MaxAttempts = 0, Backoff = 0\<rparr>, RunAt = 0, Schedule = 0, RunCount = 0, Timeout = 0,
     LastError = [], CreatedAt = 0, StartedAt = None, FinishedAt = None, WorkerID = [],
     LeaseUntil = None, LeaseToken = []\<rparr>"

definition Validate :: "task \<Rightarrow> error option" where
  "Validate t =
     (if ID t = [] \<or> Name t = [] then Some ErrInvalidTask
      else if MaxAttempts (Retry t) < 1 then Some ErrInvalidTask
      else if Backoff (Retry t) < 0 \<or> Timeout t < 0 \<or> Schedule t < 0 \<or> Attempts t < 0 \<or> RunCount t < 0
        then Some ErrInvalidTask
      else if RunAt t = 0 then Some ErrInvalidTask
      else None)"

definition IsTerminal :: "task \<Rightarrow> bool" where
  "IsTerminal t \<longleftrightarrow> Status t = StatusSuccess \<or> Status t = StatusCanceled
     \<or> (Status t = StatusFailed \<and> Attempts t \<ge> MaxAttempts (Retry t))"

text \<open>What \<^verbatim>\<open>Validate\<close> looks at, as one tuple: a write that leaves these fields alone keeps a task
  valid.\<close>

lemma Validate_None_iff:
  "Validate t = None \<longleftrightarrow> ID t \<noteq> [] \<and> Name t \<noteq> [] \<and> 1 \<le> MaxAttempts (Retry t)
     \<and> 0 \<le> Backoff (Retry t) \<and> 0 \<le> Timeout t \<and> 0 \<le> Schedule t \<and> 0 \<le> Attempts t
     \<and> 0 \<le> RunCount t \<and> RunAt t \<noteq> 0"
  by (auto simp: Validate_def)

lemma Validate_Some: "Validate t = Some e \<Longrightarrow> e = ErrInvalidTask"
  by (auto simp: Validate_def split: if_splits)

section \<open>Identifiers\<close>

text \<open>The process tag: four random bytes in hexadecimal, or, when \<^verbatim>\<open>rand.Read\<close> fails (\<open>None\<close>),
  the clock's low 32 bits. The two package variables of id.go are the fields of \<open>id_gen\<close>.\<close>

definition hex_digit :: "nat \<Rightarrow> char" where
  "hex_digit n = (if n < 10 then char_of (48 + n) else char_of (87 + n))"

definition hex_byte :: "8 word \<Rightarrow> string" where
  "hex_byte b = [hex_digit (unat b div 16), hex_digit (unat b mod 16)]"

definition EncodeToString :: "8 word list \<Rightarrow> string" where
  "EncodeToString bs = concat (map hex_byte bs)"

text \<open>\<^verbatim>\<open>%08x\<close> of a 32-bit number prints its four bytes, most significant first.\<close>

definition hex_u32 :: "32 word \<Rightarrow> string" where
  "hex_u32 w = EncodeToString
     [ucast (drop_bit 24 w), ucast (drop_bit 16 w), ucast (drop_bit 8 w), ucast w]"

definition newProcessTag :: "(8 word \<times> 8 word \<times> 8 word \<times> 8 word) option \<Rightarrow> int \<Rightarrow> string" where
  "newProcessTag rnd unixNano =
     (case rnd of
        None \<Rightarrow> hex_u32 (word_of_int unixNano)
      | Some (a, b, c, d) \<Rightarrow> EncodeToString [a, b, c, d])"

record id_gen =
  processTag :: string
  idCounter :: "64 word"

definition idFrom :: "string \<Rightarrow> int \<Rightarrow> 64 word \<Rightarrow> string" where
  "idFrom tag nanos sequence =
     ''task-'' @ dec_int nanos @ ''-'' @ tag @ ''-'' @ pad6 (unat sequence mod 1000000)"

text \<open>Nanoseconds from Go's zero time to the Unix epoch, and \<^verbatim>\<open>time.UnixNano\<close>.\<close>

definition unix_epoch :: gtime where
  "unix_epoch = 62135596800 * 1000000000"

definition UnixNano :: "gtime \<Rightarrow> int" where
  "UnixNano t = t - unix_epoch"

definition NewID :: "gtime \<Rightarrow> id_gen \<Rightarrow> string \<times> id_gen" where
  "NewID now g =
     (let c = idCounter g + 1 in
      (idFrom (processTag g) (UnixNano now) c, g\<lparr>idCounter := c\<rparr>))"

lemma length_EncodeToString: "length (EncodeToString bs) = 2 * length bs"
  by (induction bs) (auto simp: EncodeToString_def hex_byte_def)

lemma length_newProcessTag: "length (newProcessTag rnd n) = 8"
  by (simp add: newProcessTag_def hex_u32_def length_EncodeToString split: option.split)

text \<open>The last 16 characters of an identifier (dash, tag, dash, sequence) have a fixed length, so the
  three parts of an identifier can be read back from it.\<close>

lemma idFrom_parts:
  assumes "length tag = length tag'" and "idFrom tag n s = idFrom tag' n' s'"
  shows "tag = tag'" "n = n'" "unat s mod 1000000 = unat s' mod 1000000"
proof -
  let ?x = "unat s mod 1000000" and ?x' = "unat s' mod 1000000"
  have len: "length (pad6 ?x) = length (pad6 ?x')"
    by (simp add: length_pad6)
  have "dec_int n @ ''-'' @ tag @ ''-'' @ pad6 ?x = dec_int n' @ ''-'' @ tag' @ ''-'' @ pad6 ?x'"
    using assms(2) by (simp add: idFrom_def)
  then have "dec_int n = dec_int n' \<and> ''-'' @ tag @ ''-'' @ pad6 ?x = ''-'' @ tag' @ ''-'' @ pad6 ?x'"
    using len assms(1) by (intro append_eq_append_conv [THEN iffD1]) auto
  then show "tag = tag'" "n = n'" "?x = ?x'"
    using assms(1) by (auto dest: dec_int_inj pad6_inj)
qed

text \<open>The sequence number of the \<open>k\<close>-th identifier a process mints.\<close>

primrec mint :: "nat \<Rightarrow> clock \<Rightarrow> id_gen \<Rightarrow> string list" where
  "mint 0 clk g = []"
| "mint (Suc k) clk g = (let (i, g') = NewID (clk 0) g in i # mint k (later 1 clk) g')"

lemma nth_mint:
  "i < k \<Longrightarrow> mint k clk g ! i
     = idFrom (processTag g) (UnixNano (clk i)) (idCounter g + of_nat (Suc i))"
proof (induction k arbitrary: i clk g)
  case 0
  then show ?case by simp
next
  case (Suc k)
  then show ?case
    by (cases i) (simp_all add: NewID_def Let_def add.assoc)
qed

lemma length_mint [simp]: "length (mint k clk g) = k"
  by (induction k arbitrary: clk g) (simp_all add: NewID_def Let_def)

text \<open>Two 64-bit counters less than a million steps apart differ modulo a million, unless the counter
  wrapped around in between.\<close>

lemma seq_mod_distinct:
  fixes c :: "64 word"
  assumes "unat c + j < 2 ^ 64" and "i < j" and "j - i < 1000000"
  shows "unat (c + of_nat i) mod 1000000 \<noteq> unat (c + of_nat j) mod 1000000"
proof -
  have un: "unat (c + of_nat k) = unat c + k" if "k \<le> j" for k
    using that assms(1) by (simp add: unat_word_ariths unat_of_nat)
  define a where "a = unat c + i"
  define d where "d = j - i"
  have "unat (c + of_nat i) = a" "unat (c + of_nat j) = a + d"
    using un [of i] un [of j] assms(2) by (simp_all add: a_def d_def)
  moreover have "\<not> 1000000 dvd d"
    using assms by (auto simp: d_def dest: dvd_imp_le)
  ultimately show ?thesis
    using mod_eq_dvd_iff_nat [of a "a + d" 1000000] by simp
qed

text \<open>Identifiers are unique. A process that mints up to a million identifiers gets pairwise
  different ones, whatever the clock shows (it may stand still or run backwards), as long as its
  64-bit counter does not wrap around in the run.\<close>

theorem ids_unique_in_process:
  assumes "k \<le> 1000000" and "unat (idCounter g) + k < 2 ^ 64"
  shows "distinct (mint k clk g)"
proof -
  have ne: "mint k clk g ! i \<noteq> mint k clk g ! j" if "i < j" "j < k" for i j
  proof
    assume "mint k clk g ! i = mint k clk g ! j"
    then have "unat (idCounter g + of_nat (Suc i)) mod 1000000
        = unat (idCounter g + of_nat (Suc j)) mod 1000000"
      using that by (intro idFrom_parts(3) [OF refl]) (simp add: nth_mint del: of_nat_Suc)
    moreover have "Suc j - Suc i < 1000000" using that assms(1) by arith
    ultimately show False
      using seq_mod_distinct [of "idCounter g" "Suc j" "Suc i"] that assms by simp
  qed
  show ?thesis
    unfolding distinct_conv_nth using ne by (metis length_mint nat_neq_iff)
qed

theorem ids_unique_in_process_witness:
  "distinct (mint 3 (\<lambda>_. 5) \<lparr>processTag = ''0a0b0c0d'', idCounter = 999998\<rparr>)"
  by (rule ids_unique_in_process) simp_all

text \<open>Identifiers of two processes never collide when their tags differ, whatever the clocks and
  counters: the tag always has eight characters, so it can be read back.\<close>

theorem ids_unique_across_processes:
  assumes "newProcessTag r m \<noteq> newProcessTag r' m'"
  shows "idFrom (newProcessTag r m) n s \<noteq> idFrom (newProcessTag r' m') n' s'"
  using assms idFrom_parts(1) [of "newProcessTag r m" "newProcessTag r' m'"]
  by (auto simp: length_newProcessTag)

theorem ids_unique_across_processes_witness:
  "idFrom (newProcessTag (Some (0, 0, 0, 1)) 0) 7 1 \<noteq> idFrom (newProcessTag (Some (0, 0, 0, 2)) 0) 7 1"
  by (rule ids_unique_across_processes)
    (simp add: newProcessTag_def EncodeToString_def hex_byte_def hex_digit_def)

end
