(* ===== verification/Store_Model.thy ===== *)
theory Store_Model
  imports Task_Model
begin

text \<open>
  The store layer of \<^verbatim>\<open>src/internal/store/store.go\<close>: the interfaces \<^verbatim>\<open>Store\<close>,
  \<^verbatim>\<open>ConditionalUpdater\<close>, \<^verbatim>\<open>AtomicClaimer\<close>, \<^verbatim>\<open>InFlightCounter\<close>, \<^verbatim>\<open>TaskScanner\<close> and
  \<^verbatim>\<open>WorkerRegistry\<close>, the in-process \<^verbatim>\<open>MemoryStore\<close>, and the helpers \<^verbatim>\<open>clone\<close>,
  \<^verbatim>\<open>IsInFlight\<close> and \<^verbatim>\<open>Due\<close>.

  An interface value is a record of operations over a store state \<open>'s\<close>. The optional interfaces,
  which the scheduler discovers with type assertions, are optional fields. Every operation holds the
  store's mutex for its whole body, so it is one function from the store state to the result
  and the new state.
\<close>

section \<open>Workers and interfaces\<close>

record worker =
  wID :: string
  LastHeartbeat :: gtime
  wLeaseUntil :: gtime

record 's conditional_updater =
  UpdateIfLease :: "string \<Rightarrow> string \<Rightarrow> task \<Rightarrow> 's \<Rightarrow> error option \<times> 's"
  UpdateIfState :: "string \<Rightarrow> status \<Rightarrow> string \<Rightarrow> task \<Rightarrow> 's \<Rightarrow> error option \<times> 's"

record 's task_scanner =
  ListDue :: "gtime \<Rightarrow> 's \<Rightarrow> error + task list"
  ListExpired :: "gtime \<Rightarrow> 's \<Rightarrow> error + task list"

record 's worker_registry =
  RegisterWorker :: "string \<Rightarrow> duration \<Rightarrow> gtime \<Rightarrow> 's \<Rightarrow> (error + worker) \<times> 's"
  HeartbeatWorker :: "string \<Rightarrow> duration \<Rightarrow> gtime \<Rightarrow> 's \<Rightarrow> (error + worker) \<times> 's"
  GetWorker :: "string \<Rightarrow> 's \<Rightarrow> error + worker"
  ListWorkers :: "gtime \<Rightarrow> 's \<Rightarrow> error + worker list"
  RenewWorkerTaskLeases :: "string \<Rightarrow> gtime \<Rightarrow> 's \<Rightarrow> error option \<times> 's"

text \<open>\<open>records\<close> is a ghost field: the number of records the store holds, which bounds the depth of the
  dependency search in the scheduler; no operation of the code reads it.\<close>

record 's store_ops =
  Create :: "task \<Rightarrow> 's \<Rightarrow> error option \<times> 's"
  Get :: "string \<Rightarrow> 's \<Rightarrow> error + task"
  List :: "'s \<Rightarrow> error + task list"
  Update :: "task \<Rightarrow> 's \<Rightarrow> error option \<times> 's"
  Delete :: "string \<Rightarrow> 's \<Rightarrow> error option \<times> 's"
  asConditionalUpdater :: "'s conditional_updater option"
  asAtomicClaimer :: "(string \<Rightarrow> duration \<Rightarrow> clock \<Rightarrow> 's \<Rightarrow> (error + task) \<times> 's) option"
  asInFlightCounter :: "('s \<Rightarrow> error + int) option"
  asTaskScanner :: "'s task_scanner option"
  asWorkerRegistry :: "'s worker_registry option"
  asIdempotencyFinder :: "(string \<Rightarrow> 's \<Rightarrow> error + task) option"
  records :: "'s \<Rightarrow> nat"

section \<open>Helpers\<close>

definition clone :: "task \<Rightarrow> task" where
  "clone t = t\<lparr>Payload := append_nil (Payload t), Result := append_nil (Result t),
               DependsOn := append_nil (DependsOn t)\<rparr>"

definition IsInFlight :: "status \<Rightarrow> bool" where
  "IsInFlight s \<longleftrightarrow> s = StatusPending \<or> s = StatusRetrying \<or> s = StatusRunning"

definition is_due :: "gtime \<Rightarrow> task \<Rightarrow> bool" where
  "is_due now t \<longleftrightarrow> (Status t = StatusPending \<or> Status t = StatusRetrying) \<and> \<not> now < RunAt t"

text \<open>The comparison of \<^verbatim>\<open>Due\<close>, and \<^verbatim>\<open>sort.SliceStable\<close> with it as an insertion sort: an
  element goes behind every earlier element it is not less than.\<close>

definition due_less :: "task \<Rightarrow> task \<Rightarrow> bool" where
  "due_less a b = (if Priority a \<noteq> Priority b then Priority a > Priority b else RunAt a < RunAt b)"

fun insert_stable :: "('a \<Rightarrow> 'a \<Rightarrow> bool) \<Rightarrow> 'a \<Rightarrow> 'a list \<Rightarrow> 'a list" where
  "insert_stable lt x [] = [x]"
| "insert_stable lt x (y # ys) = (if lt y x then y # insert_stable lt x ys else x # y # ys)"

definition SliceStable :: "('a \<Rightarrow> 'a \<Rightarrow> bool) \<Rightarrow> 'a list \<Rightarrow> 'a list" where
  "SliceStable lt xs = foldr (insert_stable lt) xs []"

definition Due :: "task list \<Rightarrow> gtime \<Rightarrow> task list" where
  "Due tasks now = SliceStable due_less (filter (is_due now) tasks)"

section \<open>MemoryStore\<close>

record memory_store =
  mtasks :: "(string, task) gmap"
  mworkers :: "(string, worker) gmap"

definition NewMemory :: memory_store where
  "NewMemory = \<lparr>mtasks = [], mworkers = []\<rparr>"

definition MemoryStore_Create :: "task \<Rightarrow> memory_store \<Rightarrow> error option \<times> memory_store" where
  "MemoryStore_Create t s =
     (case Validate t of
        Some e \<Rightarrow> (Some e, s)
      | None \<Rightarrow>
          if IdempotencyKey t \<noteq> [] \<and> (\<exists>e \<in> set (mtasks s). IdempotencyKey (snd e) = IdempotencyKey t)
          then (Some ErrDuplicateIdempotencyKey, s)
          else if map_of (mtasks s) (ID t) \<noteq> None then (Some ErrDuplicateID, s)
          else (None, s\<lparr>mtasks := AList.update (ID t) (clone t) (mtasks s)\<rparr>))"

definition MemoryStore_GetByIdempotencyKey :: "string \<Rightarrow> memory_store \<Rightarrow> error + task" where
  "MemoryStore_GetByIdempotencyKey key s =
     (case List.find (\<lambda>t. IdempotencyKey t = key) (map snd (mtasks s)) of
        None \<Rightarrow> Inl ErrNotFound
      | Some t \<Rightarrow> Inr (clone t))"

definition MemoryStore_Get :: "string \<Rightarrow> memory_store \<Rightarrow> error + task" where
  "MemoryStore_Get i s =
     (case map_of (mtasks s) i of None \<Rightarrow> Inl ErrNotFound | Some t \<Rightarrow> Inr (clone t))"

definition MemoryStore_List :: "memory_store \<Rightarrow> error + task list" where
  "MemoryStore_List s = Inr (map (clone \<circ> snd) (mtasks s))"

definition MemoryStore_CountInFlight :: "memory_store \<Rightarrow> error + int" where
  "MemoryStore_CountInFlight s =
     Inr (foldl (\<lambda>count t. if IsInFlight (Status t) then count + 1 else count) 0 (map snd (mtasks s)))"

definition MemoryStore_Update :: "task \<Rightarrow> memory_store \<Rightarrow> error option \<times> memory_store" where
  "MemoryStore_Update t s =
     (case Validate t of
        Some e \<Rightarrow> (Some e, s)
      | None \<Rightarrow>
          if map_of (mtasks s) (ID t) = None then (Some ErrNotFound, s)
          else (None, s\<lparr>mtasks := AList.update (ID t) (clone t) (mtasks s)\<rparr>))"

definition MemoryStore_Delete :: "string \<Rightarrow> memory_store \<Rightarrow> error option \<times> memory_store" where
  "MemoryStore_Delete i s =
     (if map_of (mtasks s) i = None then (Some ErrNotFound, s)
      else (None, s\<lparr>mtasks := AList.delete i (mtasks s)\<rparr>))"

definition MemoryStore_UpdateIfLease ::
  "string \<Rightarrow> string \<Rightarrow> task \<Rightarrow> memory_store \<Rightarrow> error option \<times> memory_store" where
  "MemoryStore_UpdateIfLease i token t s =
     (case Validate t of
        Some e \<Rightarrow> (Some e, s)
      | None \<Rightarrow>
          (case map_of (mtasks s) i of
             None \<Rightarrow> (Some ErrNotFound, s)
           | Some current \<Rightarrow>
               if Status current \<noteq> StatusRunning \<or> LeaseToken current \<noteq> token then (Some ErrConflict, s)
               else (None, s\<lparr>mtasks := AList.update i (clone t) (mtasks s)\<rparr>)))"

definition MemoryStore_UpdateIfState ::
  "string \<Rightarrow> status \<Rightarrow> string \<Rightarrow> task \<Rightarrow> memory_store \<Rightarrow> error option \<times> memory_store" where
  "MemoryStore_UpdateIfState i st token t s =
     (case Validate t of
        Some e \<Rightarrow> (Some e, s)
      | None \<Rightarrow>
          (case map_of (mtasks s) i of
             None \<Rightarrow> (Some ErrNotFound, s)
           | Some current \<Rightarrow>
               if Status current \<noteq> st \<or> LeaseToken current \<noteq> token then (Some ErrConflict, s)
               else (None, s\<lparr>mtasks := AList.update i (clone t) (mtasks s)\<rparr>)))"

definition MemoryStore_RegisterWorker ::
  "string \<Rightarrow> duration \<Rightarrow> gtime \<Rightarrow> memory_store \<Rightarrow> (error + worker) \<times> memory_store" where
  "MemoryStore_RegisterWorker i ttl now s =
     (if i = [] then (Inl (ErrNew ''worker id is required''), s)
      else let w = \<lparr>wID = i, LastHeartbeat = now, wLeaseUntil = now + ttl\<rparr> in
        (Inr w, s\<lparr>mworkers := AList.update i w (mworkers s)\<rparr>))"

definition MemoryStore_HeartbeatWorker ::
  "string \<Rightarrow> duration \<Rightarrow> gtime \<Rightarrow> memory_store \<Rightarrow> (error + worker) \<times> memory_store" where
  "MemoryStore_HeartbeatWorker i ttl now s =
     (if map_of (mworkers s) i = None then (Inl (ErrNew ''worker not registered''), s)
      else let w = \<lparr>wID = i, LastHeartbeat = now, wLeaseUntil = now + ttl\<rparr> in
        (Inr w, s\<lparr>mworkers := AList.update i w (mworkers s)\<rparr>))"

definition MemoryStore_GetWorker :: "string \<Rightarrow> memory_store \<Rightarrow> error + worker" where
  "MemoryStore_GetWorker i s =
     (case map_of (mworkers s) i of None \<Rightarrow> Inl ErrNotFound | Some w \<Rightarrow> Inr w)"

definition MemoryStore_ListWorkers :: "gtime \<Rightarrow> memory_store \<Rightarrow> error + worker list" where
  "MemoryStore_ListWorkers now s = Inr (filter (\<lambda>w. now < wLeaseUntil w) (map snd (mworkers s)))"

definition MemoryStore_RenewWorkerTaskLeases ::
  "string \<Rightarrow> gtime \<Rightarrow> memory_store \<Rightarrow> error option \<times> memory_store" where
  "MemoryStore_RenewWorkerTaskLeases wid until s =
     (None, s\<lparr>mtasks := map (\<lambda>(k, t).
        (k, if Status t = StatusRunning \<and> WorkerID t = wid then t\<lparr>LeaseUntil := Some until\<rparr> else t))
        (mtasks s)\<rparr>)"

definition memory_ops :: "memory_store store_ops" where
  "memory_ops = \<lparr>Create = MemoryStore_Create, Get = MemoryStore_Get, List = MemoryStore_List,
     Update = MemoryStore_Update, Delete = MemoryStore_Delete,
     asConditionalUpdater = Some \<lparr>UpdateIfLease = MemoryStore_UpdateIfLease,
                                   UpdateIfState = MemoryStore_UpdateIfState\<rparr>,
     asAtomicClaimer = None,
     asInFlightCounter = Some MemoryStore_CountInFlight,
     asTaskScanner = None,
     asWorkerRegistry = Some \<lparr>RegisterWorker = MemoryStore_RegisterWorker,
        HeartbeatWorker = MemoryStore_HeartbeatWorker, GetWorker = MemoryStore_GetWorker,
        ListWorkers = MemoryStore_ListWorkers,
        RenewWorkerTaskLeases = MemoryStore_RenewWorkerTaskLeases\<rparr>,
     asIdempotencyFinder = Some MemoryStore_GetByIdempotencyKey,
     records = (\<lambda>s. length (mtasks s))\<rparr>"

end
