(* ===== verification/Store_Contract.thy ===== *)
theory Store_Contract
  imports Store_Model
begin

text \<open>
  What the scheduler relies on in a store. The locale \<open>task_store\<close> states the contract of the
  \<^verbatim>\<open>Store\<close> and \<^verbatim>\<open>ConditionalUpdater\<close> interfaces over an abstract view: a finite map \<open>look\<close> from
  ids to records and an invariant. Its extensions add what a store may promise beyond that: no
  I/O failures (\<open>reliable_store\<close>), the absence of the shared-store interfaces
  (\<open>local_store\<close>) and a worker registry (\<open>worker_store\<close>). The theory closes with the interpretation for \<^verbatim>\<open>MemoryStore\<close> and the
  store-level properties.
\<close>

section \<open>The contract\<close>

definition key_free :: "(string \<rightharpoonup> task) \<Rightarrow> string \<Rightarrow> bool" where
  "key_free m key \<longleftrightarrow> key = [] \<or> (\<forall>i t. m i = Some t \<longrightarrow> IdempotencyKey t \<noteq> key)"

definition in_flight_ids :: "(string \<rightharpoonup> task) \<Rightarrow> string set" where
  "in_flight_ids m = {i. \<exists>t. m i = Some t \<and> IsInFlight (Status t)}"

text \<open>The abstract effect of the two conditional updates and of \<^verbatim>\<open>Create\<close>, \<^verbatim>\<open>Update\<close>, \<^verbatim>\<open>Delete\<close>:
  the new map, or \<open>None\<close> when the call must fail and change nothing.\<close>

definition cas_spec ::
  "string \<Rightarrow> status \<Rightarrow> string \<Rightarrow> task \<Rightarrow> (string \<rightharpoonup> task) \<Rightarrow> (string \<rightharpoonup> task) option" where
  "cas_spec i st token t m =
     (case m i of
        None \<Rightarrow> None
      | Some c \<Rightarrow> if Validate t = None \<and> Status c = st \<and> LeaseToken c = token
                  then Some (m(i \<mapsto> clone t)) else None)"

definition create_spec :: "task \<Rightarrow> (string \<rightharpoonup> task) \<Rightarrow> (string \<rightharpoonup> task) option" where
  "create_spec t m =
     (if Validate t = None \<and> key_free m (IdempotencyKey t) \<and> m (ID t) = None
      then Some (m(ID t \<mapsto> clone t)) else None)"

definition update_spec :: "task \<Rightarrow> (string \<rightharpoonup> task) \<Rightarrow> (string \<rightharpoonup> task) option" where
  "update_spec t m =
     (if Validate t = None \<and> m (ID t) \<noteq> None then Some (m(ID t \<mapsto> clone t)) else None)"

definition delete_spec :: "string \<Rightarrow> (string \<rightharpoonup> task) \<Rightarrow> (string \<rightharpoonup> task) option" where
  "delete_spec i m = (if m i \<noteq> None then Some (m(i := None)) else None)"

text \<open>A call \<open>(e, s')\<close> from \<open>s\<close> meets a specification: where the specification allows the change, the
  view changes accordingly; where it does not, the call reports an error and the view stays.\<close>

definition meets :: "('s \<Rightarrow> string \<rightharpoonup> task) \<Rightarrow> 's \<Rightarrow> error option \<times> 's \<Rightarrow> (string \<rightharpoonup> task) option \<Rightarrow> bool" where
  "meets look s r spec \<longleftrightarrow>
     (case spec of None \<Rightarrow> fst r \<noteq> None \<and> look (snd r) = look s | Some m \<Rightarrow> look (snd r) = m)"

text \<open>Well-formed views: records sit under their own id, are valid and in cloned form, and no
  two records share an idempotency key.\<close>

definition wf_view :: "(string \<rightharpoonup> task) \<Rightarrow> bool" where
  "wf_view m \<longleftrightarrow> finite (dom m)
     \<and> (\<forall>i t. m i = Some t \<longrightarrow> ID t = i \<and> Validate t = None \<and> clone t = t)
     \<and> (\<forall>i j t u. m i = Some t \<longrightarrow> m j = Some u \<longrightarrow> IdempotencyKey t \<noteq> []
          \<longrightarrow> IdempotencyKey t = IdempotencyKey u \<longrightarrow> i = j)"

locale task_store =
  fixes ops :: "'s store_ops"
    and cu :: "'s conditional_updater"
    and look :: "'s \<Rightarrow> string \<rightharpoonup> task"
    and inv :: "'s \<Rightarrow> bool"
  assumes updater: "asConditionalUpdater ops = Some cu"
    and wf: "inv s \<Longrightarrow> wf_view (look s)"
    and bound: "inv s \<Longrightarrow> card (dom (look s)) \<le> records ops s"
    and get: "inv s \<Longrightarrow> Get ops i s = (case look s i of None \<Rightarrow> Inl ErrNotFound | Some t \<Rightarrow> Inr t)"
    and list: "inv s \<Longrightarrow> \<exists>xs. List ops s = Inr xs \<and> distinct (map ID xs) \<and> set xs = ran (look s)"
    and create: "inv s \<Longrightarrow> meets look s (Create ops t s) (create_spec t (look s))"
    and update: "inv s \<Longrightarrow> meets look s (Update ops t s) (update_spec t (look s))"
    and delete: "inv s \<Longrightarrow> meets look s (Delete ops i s) (delete_spec i (look s))"
    and cas: "inv s \<Longrightarrow> ID t = i \<Longrightarrow>
        meets look s (UpdateIfState cu i st token t s) (cas_spec i st token t (look s))"
    and cas_lease: "inv s \<Longrightarrow> ID t = i \<Longrightarrow>
        meets look s (UpdateIfLease cu i token t s) (cas_spec i StatusRunning token t (look s))"
    and inv_create: "inv s \<Longrightarrow> inv (snd (Create ops t s))"
    and inv_delete: "inv s \<Longrightarrow> inv (snd (Delete ops i s))"
    and inv_update: "inv s \<Longrightarrow> look s (ID t) = Some c \<Longrightarrow> IdempotencyKey t = IdempotencyKey c \<Longrightarrow>
        inv (snd (Update ops t s))"
    and inv_update_miss: "inv s \<Longrightarrow> look s (ID t) = None \<Longrightarrow> inv (snd (Update ops t s))"
    and inv_cas: "inv s \<Longrightarrow> ID t = i \<Longrightarrow> (\<forall>c. look s i = Some c \<longrightarrow> IdempotencyKey t = IdempotencyKey c) \<Longrightarrow>
        inv (snd (UpdateIfState cu i st token t s))"
    and inv_cas_lease: "inv s \<Longrightarrow> ID t = i \<Longrightarrow> (\<forall>c. look s i = Some c \<longrightarrow> IdempotencyKey t = IdempotencyKey c) \<Longrightarrow>
        inv (snd (UpdateIfLease cu i token t s))"
begin

lemma look_id: "inv s \<Longrightarrow> look s i = Some t \<Longrightarrow> ID t = i"
  using wf [of s] by (auto simp: wf_view_def)

lemma look_valid: "inv s \<Longrightarrow> look s i = Some t \<Longrightarrow> Validate t = None"
  using wf [of s] by (auto simp: wf_view_def)

lemma look_clone: "inv s \<Longrightarrow> look s i = Some t \<Longrightarrow> clone t = t"
  using wf [of s] by (auto simp: wf_view_def)

lemma look_key:
  "inv s \<Longrightarrow> look s i = Some t \<Longrightarrow> look s j = Some u \<Longrightarrow> IdempotencyKey t \<noteq> [] \<Longrightarrow>
   IdempotencyKey t = IdempotencyKey u \<Longrightarrow> i = j"
  using wf [of s] unfolding wf_view_def by blast

lemma finite_look: "inv s \<Longrightarrow> finite (dom (look s))"
  using wf [of s] by (auto simp: wf_view_def)

lemma get_iff: "inv s \<Longrightarrow> Get ops i s = Inr t \<longleftrightarrow> look s i = Some t"
  by (auto simp: get split: option.splits)

lemma in_list_iff:
  "inv s \<Longrightarrow> List ops s = Inr xs \<Longrightarrow> t \<in> set xs \<longleftrightarrow> look s (ID t) = Some t"
  using list [of s] by (auto simp: ran_def dest: look_id)

lemma list_total: "inv s \<Longrightarrow> \<exists>xs. List ops s = Inr xs"
  using list [of s] by auto

lemma list_distinct: "inv s \<Longrightarrow> List ops s = Inr xs \<Longrightarrow> distinct (map ID xs)"
  using list [of s] by auto

end

locale reliable_store = task_store +
  assumes create_ok: "inv s \<Longrightarrow> create_spec t (look s) \<noteq> None \<Longrightarrow> fst (Create ops t s) = None"
    and update_ok: "inv s \<Longrightarrow> update_spec t (look s) \<noteq> None \<Longrightarrow> fst (Update ops t s) = None"
    and delete_ok: "inv s \<Longrightarrow> delete_spec i (look s) \<noteq> None \<Longrightarrow> fst (Delete ops i s) = None"
    and cas_ok: "inv s \<Longrightarrow> ID t = i \<Longrightarrow> cas_spec i st token t (look s) \<noteq> None \<Longrightarrow>
        fst (UpdateIfState cu i st token t s) = None"
    and cas_lease_ok: "inv s \<Longrightarrow> ID t = i \<Longrightarrow> cas_spec i StatusRunning token t (look s) \<noteq> None \<Longrightarrow>
        fst (UpdateIfLease cu i token t s) = None"
    and finder: "\<exists>f. asIdempotencyFinder ops = Some f \<and> (\<forall>s key. inv s \<longrightarrow> key \<noteq> [] \<longrightarrow>
        (case f key s of
           Inr t \<Rightarrow> (\<exists>i. look s i = Some t) \<and> IdempotencyKey t = key
         | Inl e \<Rightarrow> e = ErrNotFound \<and> key_free (look s) key))"
    and counter: "\<exists>f. asInFlightCounter ops = Some f \<and>
        (\<forall>s. inv s \<longrightarrow> f s = Inr (int (card (in_flight_ids (look s)))))"
begin

lemma cas_None_iff:
  "inv s \<Longrightarrow> ID t = i \<Longrightarrow> fst (UpdateIfState cu i st token t s) = None \<longleftrightarrow> cas_spec i st token t (look s) \<noteq> None"
  using cas [of s t i st token] cas_ok [of s t i st token] by (auto simp: meets_def split: option.splits)

lemma create_None_iff:
  "inv s \<Longrightarrow> fst (Create ops t s) = None \<longleftrightarrow> create_spec t (look s) \<noteq> None"
  using create [of s t] create_ok [of s t] by (auto simp: meets_def split: option.splits)

lemma delete_None_iff:
  "inv s \<Longrightarrow> fst (Delete ops i s) = None \<longleftrightarrow> delete_spec i (look s) \<noteq> None"
  using delete [of s i] delete_ok [of s i] by (auto simp: meets_def split: option.splits)

end

locale local_store = reliable_store +
  assumes no_claimer: "asAtomicClaimer ops = None"
    and no_scanner: "asTaskScanner ops = None"

text \<open>The contract of the \<^verbatim>\<open>WorkerRegistry\<close> interface: \<open>wlook\<close> is the view of the registered workers.\<close>

definition live_worker :: "string \<Rightarrow> gtime \<Rightarrow> duration \<Rightarrow> worker" where
  "live_worker i now ttl = \<lparr>wID = i, LastHeartbeat = now, wLeaseUntil = now + ttl\<rparr>"

definition extended :: "string \<Rightarrow> gtime \<Rightarrow> task \<Rightarrow> task" where
  "extended wid until t = (if Status t = StatusRunning \<and> WorkerID t = wid then t\<lparr>LeaseUntil := Some until\<rparr> else t)"

locale worker_store = task_store +
  fixes reg :: "'a worker_registry"
    and wlook :: "'a \<Rightarrow> string \<rightharpoonup> worker"
  assumes registry: "asWorkerRegistry ops = Some reg"
    and register: "inv s \<Longrightarrow> i \<noteq> [] \<Longrightarrow> \<exists>s'. RegisterWorker reg i ttl now s = (Inr (live_worker i now ttl), s')
        \<and> inv s' \<and> look s' = look s \<and> wlook s' = (wlook s)(i \<mapsto> live_worker i now ttl)"
    and register_refused: "inv s \<Longrightarrow> \<exists>e. RegisterWorker reg [] ttl now s = (Inl e, s)"
    and heartbeat: "inv s \<Longrightarrow> wlook s i \<noteq> None \<Longrightarrow> \<exists>s'. HeartbeatWorker reg i ttl now s = (Inr (live_worker i now ttl), s')
        \<and> inv s' \<and> look s' = look s \<and> wlook s' = (wlook s)(i \<mapsto> live_worker i now ttl)"
    and heartbeat_refused: "inv s \<Longrightarrow> wlook s i = None \<Longrightarrow> \<exists>e. HeartbeatWorker reg i ttl now s = (Inl e, s)"
    and get_worker: "inv s \<Longrightarrow> GetWorker reg i s = (case wlook s i of None \<Rightarrow> Inl ErrNotFound | Some w \<Rightarrow> Inr w)"
    and list_workers: "inv s \<Longrightarrow> \<exists>ws. ListWorkers reg now s = Inr ws \<and> set ws = {w \<in> ran (wlook s). now < wLeaseUntil w}"
    and renew: "inv s \<Longrightarrow> \<exists>s'. RenewWorkerTaskLeases reg i until s = (None, s') \<and> inv s' \<and> wlook s' = wlook s
        \<and> look s' = (\<lambda>k. map_option (extended i until) (look s k))"
    and keeps_workers: "inv s \<Longrightarrow> wlook (snd (Create ops t s)) = wlook s" "inv s \<Longrightarrow> wlook (snd (Update ops t s)) = wlook s"
      "inv s \<Longrightarrow> wlook (snd (Delete ops i s)) = wlook s" "inv s \<Longrightarrow> wlook (snd (UpdateIfState cu i st token t s)) = wlook s"
      "inv s \<Longrightarrow> wlook (snd (UpdateIfLease cu i token t s)) = wlook s"

section \<open>MemoryStore meets the contract\<close>

definition mem_look :: "memory_store \<Rightarrow> string \<rightharpoonup> task" where
  "mem_look s = map_of (mtasks s)"

definition mem_inv :: "memory_store \<Rightarrow> bool" where
  "mem_inv s \<longleftrightarrow> distinct (map fst (mtasks s)) \<and> distinct (map fst (mworkers s))
     \<and> wf_view (mem_look s)"

lemma clone_fields [simp]:
  "ID (clone t) = ID t" "IdempotencyKey (clone t) = IdempotencyKey t" "Name (clone t) = Name t"
  "Priority (clone t) = Priority t" "Status (clone t) = Status t" "Attempts (clone t) = Attempts t"
  "Retry (clone t) = Retry t" "RunAt (clone t) = RunAt t" "Schedule (clone t) = Schedule t"
  "RunCount (clone t) = RunCount t" "Timeout (clone t) = Timeout t" "LastError (clone t) = LastError t"
  "CreatedAt (clone t) = CreatedAt t" "StartedAt (clone t) = StartedAt t"
  "FinishedAt (clone t) = FinishedAt t" "WorkerID (clone t) = WorkerID t"
  "LeaseUntil (clone t) = LeaseUntil t" "LeaseToken (clone t) = LeaseToken t"
  "elems (DependsOn (clone t)) = elems (DependsOn t)" "elems (Payload (clone t)) = elems (Payload t)"
  "elems (Result (clone t)) = elems (Result t)"
  by (simp_all add: clone_def)

lemma clone_clone [simp]: "clone (clone t) = clone t"
  by (simp add: clone_def)

lemma Validate_clone [simp]: "Validate (clone t) = Validate t"
  by (simp add: Validate_def)

lemma wf_view_put:
  assumes "wf_view m" and "Validate t = None" and "ID t = i"
    and "\<And>j u. m j = Some u \<Longrightarrow> j \<noteq> i \<Longrightarrow> IdempotencyKey t \<noteq> [] \<Longrightarrow> IdempotencyKey u \<noteq> IdempotencyKey t"
  shows "wf_view (m(i \<mapsto> clone t))"
proof -
  let ?m = "m(i \<mapsto> clone t)"
  have "j = k" if "?m j = Some u" "?m k = Some v" "IdempotencyKey u \<noteq> []"
      "IdempotencyKey u = IdempotencyKey v" for j k u v
  proof -
    consider "j = i" "k = i" | "j \<noteq> i" "k = i" | "j = i" "k \<noteq> i" | "j \<noteq> i" "k \<noteq> i" by blast
    then show ?thesis
    proof cases
      case 4
      with that assms(1) show ?thesis unfolding wf_view_def by fastforce
    next
      case 3
      with that assms(4) [of k v] show ?thesis by auto
    qed (use that assms(4) in auto)
  qed
  note key = this
  have "ID u = j \<and> Validate u = None \<and> clone u = u" if "?m j = Some u" for j u
    using assms(1-3) that unfolding wf_view_def by (auto split: if_splits)
  moreover have "finite (dom ?m)" using assms(1) by (simp add: wf_view_def)
  ultimately show ?thesis using key unfolding wf_view_def by blast
qed

lemma wf_view_del: "wf_view m \<Longrightarrow> wf_view (m(i := None))"
  unfolding wf_view_def by (auto split: if_splits)

lemma wf_view_same_key:
  assumes "wf_view m" and "Validate t = None" and "ID t = i"
    and "m i = Some c" and "IdempotencyKey t = IdempotencyKey c"
  shows "wf_view (m(i \<mapsto> clone t))"
proof (rule wf_view_put [OF assms(1-3)])
  fix j u
  assume "m j = Some u" "j \<noteq> i" "IdempotencyKey t \<noteq> []"
  with assms show "IdempotencyKey u \<noteq> IdempotencyKey t"
    unfolding wf_view_def by metis
qed

lemma mem_key_free:
  assumes "mem_inv s"
  shows "(key \<noteq> [] \<and> (\<exists>e \<in> set (mtasks s). IdempotencyKey (snd e) = key)) \<longleftrightarrow> \<not> key_free (mem_look s) key"
proof -
  have "distinct (map fst (mtasks s))" using assms by (simp add: mem_inv_def)
  then have "(i, t) \<in> set (mtasks s) \<longleftrightarrow> mem_look s i = Some t" for i t
    by (simp add: mem_look_def)
  then show ?thesis unfolding key_free_def Bex_def split_paired_Ex by auto
qed

lemma key_freeD: "key_free m key \<Longrightarrow> m j = Some u \<Longrightarrow> key \<noteq> [] \<Longrightarrow> IdempotencyKey u \<noteq> key"
  by (auto simp: key_free_def)

lemma mem_create_meets:
  "mem_inv s \<Longrightarrow> meets mem_look s (MemoryStore_Create t s) (create_spec t (mem_look s))"
  using mem_key_free [of s "IdempotencyKey t"]
  by (auto simp: MemoryStore_Create_def meets_def create_spec_def mem_look_def gmap_simps
      split: option.splits)

lemma mem_cas_meets:
  "meets mem_look s (MemoryStore_UpdateIfState i st token t s) (cas_spec i st token t (mem_look s))"
  by (auto simp: MemoryStore_UpdateIfState_def meets_def cas_spec_def mem_look_def gmap_simps
      split: option.splits)

lemma mem_lease_is_state:
  "MemoryStore_UpdateIfLease i token t s = MemoryStore_UpdateIfState i StatusRunning token t s"
  by (simp add: MemoryStore_UpdateIfLease_def MemoryStore_UpdateIfState_def)

lemma mem_update_meets:
  "meets mem_look s (MemoryStore_Update t s) (update_spec t (mem_look s))"
  by (auto simp: MemoryStore_Update_def meets_def update_spec_def mem_look_def gmap_simps
      split: option.splits)

lemma mem_delete_meets:
  "meets mem_look s (MemoryStore_Delete i s) (delete_spec i (mem_look s))"
  by (auto simp: MemoryStore_Delete_def meets_def delete_spec_def mem_look_def gmap_simps)

lemma mem_inv_create: "mem_inv s \<Longrightarrow> mem_inv (snd (MemoryStore_Create t s))"
  using mem_key_free [of s "IdempotencyKey t"]
  by (auto simp: MemoryStore_Create_def mem_inv_def mem_look_def gmap_simps split: option.splits
      intro!: wf_view_put dest: key_freeD)

lemma mem_inv_update:
  "mem_inv s \<Longrightarrow> (\<forall>c. mem_look s (ID t) = Some c \<longrightarrow> IdempotencyKey t = IdempotencyKey c) \<Longrightarrow>
   mem_inv (snd (MemoryStore_Update t s))"
  by (auto simp: MemoryStore_Update_def mem_inv_def mem_look_def gmap_simps split: option.splits
      intro!: wf_view_same_key)

lemma mem_inv_delete: "mem_inv s \<Longrightarrow> mem_inv (snd (MemoryStore_Delete i s))"
  by (auto simp: MemoryStore_Delete_def mem_inv_def mem_look_def gmap_simps intro!: wf_view_del)

lemma in_flight_count:
  "foldl (\<lambda>count t. if IsInFlight (Status t) then count + 1 else count) a ts
     = (a :: int) + int (length (filter (\<lambda>t. IsInFlight (Status t)) ts))"
  by (induction ts arbitrary: a) auto

lemma card_filter_gmap:
  assumes "distinct (map fst m)"
  shows "card {i. \<exists>t. map_of m i = Some t \<and> P t} = length (filter P (map snd m))"
proof -
  have "{i. \<exists>t. map_of m i = Some t \<and> P t} = set (map fst (filter (P \<circ> snd) m))"
    using assms by force
  also have "card \<dots> = length (filter (P \<circ> snd) m)"
    using assms by (subst distinct_card) (simp_all add: distinct_map_filter)
  finally show ?thesis by (simp add: filter_map comp_def)
qed

lemma mem_counter:
  "mem_inv s \<Longrightarrow> MemoryStore_CountInFlight s = Inr (int (card (in_flight_ids (mem_look s))))"
  using card_filter_gmap [of "mtasks s" "\<lambda>t. IsInFlight (Status t)"]
  by (simp only: MemoryStore_CountInFlight_def in_flight_count in_flight_ids_def mem_look_def mem_inv_def)
    simp

lemma mem_list:
  assumes "mem_inv s"
  shows "\<exists>xs. MemoryStore_List s = Inr xs \<and> distinct (map ID xs) \<and> set xs = ran (mem_look s)"
proof -
  have d: "distinct (map fst (mtasks s))" and w: "wf_view (map_of (mtasks s))"
    using assms by (simp_all add: mem_inv_def mem_look_def)
  have el: "ID t = i \<and> clone t = t" if "(i, t) \<in> set (mtasks s)" for i t
    using w d that by (auto simp: wf_view_def)
  then have ids: "map ID (map (clone \<circ> snd) (mtasks s)) = map fst (mtasks s)" by auto
  have "map (clone \<circ> snd) (mtasks s) = map snd (mtasks s)" using el by auto
  moreover have "set (map snd (mtasks s)) = ran (map_of (mtasks s))"
    using d by (simp add: ran_distinct)
  ultimately show ?thesis
    using d ids by (metis MemoryStore_List_def mem_look_def)
qed

lemma mem_finder:
  assumes "mem_inv s" and "key \<noteq> []"
  shows "case MemoryStore_GetByIdempotencyKey key s of
           Inr t \<Rightarrow> (\<exists>i. mem_look s i = Some t) \<and> IdempotencyKey t = key
         | Inl e \<Rightarrow> e = ErrNotFound \<and> key_free (mem_look s) key"
proof (cases "List.find (\<lambda>t. IdempotencyKey t = key) (map snd (mtasks s))")
  case None
  then have "\<forall>e \<in> set (mtasks s). IdempotencyKey (snd e) \<noteq> key"
    by (auto simp: find_None_iff)
  then have "key_free (mem_look s) key"
    using mem_key_free [OF assms(1), of key] by blast
  with None show ?thesis by (simp add: MemoryStore_GetByIdempotencyKey_def)
next
  case (Some t)
  then have "t \<in> set (map snd (mtasks s))" and k: "IdempotencyKey t = key"
    by (auto simp: find_Some_iff)
  then obtain i where i: "mem_look s i = Some t"
    using assms(1) gmap_value_iff [of "mtasks s" t] by (auto simp: mem_inv_def mem_look_def)
  then have "clone t = t"
    using assms(1) by (auto simp: mem_inv_def wf_view_def)
  with Some i k show ?thesis by (auto simp: MemoryStore_GetByIdempotencyKey_def)
qed

lemma mem_get:
  "mem_inv s \<Longrightarrow> MemoryStore_Get i s = (case mem_look s i of None \<Rightarrow> Inl ErrNotFound | Some t \<Rightarrow> Inr t)"
  by (auto simp: MemoryStore_Get_def mem_look_def mem_inv_def wf_view_def split: option.split)

lemma mem_inv_cas:
  "mem_inv s \<Longrightarrow> ID t = i \<Longrightarrow> (\<forall>c. mem_look s i = Some c \<longrightarrow> IdempotencyKey t = IdempotencyKey c) \<Longrightarrow>
   mem_inv (snd (MemoryStore_UpdateIfState i st token t s))"
  by (auto simp: MemoryStore_UpdateIfState_def mem_inv_def mem_look_def gmap_simps split: option.splits
      intro!: wf_view_same_key)

lemma mem_create_ok:
  "mem_inv s \<Longrightarrow> create_spec t (mem_look s) \<noteq> None \<Longrightarrow> fst (MemoryStore_Create t s) = None"
  using mem_key_free [of s "IdempotencyKey t"]
  by (auto simp: MemoryStore_Create_def create_spec_def mem_look_def split: if_splits)

lemma mem_cas_ok:
  "cas_spec i st token t (mem_look s) \<noteq> None \<Longrightarrow> fst (MemoryStore_UpdateIfState i st token t s) = None"
  by (auto simp: MemoryStore_UpdateIfState_def cas_spec_def mem_look_def split: option.splits if_splits)

lemma mem_update_ok: "update_spec t (mem_look s) \<noteq> None \<Longrightarrow> fst (MemoryStore_Update t s) = None"
  by (auto simp: update_spec_def MemoryStore_Update_def mem_look_def split: if_splits)

lemma mem_delete_ok: "delete_spec i (mem_look s) \<noteq> None \<Longrightarrow> fst (MemoryStore_Delete i s) = None"
  by (auto simp: delete_spec_def MemoryStore_Delete_def mem_look_def split: if_splits)

definition memory_updater :: "memory_store conditional_updater" where
  "memory_updater = \<lparr>UpdateIfLease = MemoryStore_UpdateIfLease, UpdateIfState = MemoryStore_UpdateIfState\<rparr>"

lemma memory_ops_sel [simp]:
  "Create memory_ops = MemoryStore_Create" "Get memory_ops = MemoryStore_Get"
  "List memory_ops = MemoryStore_List" "Update memory_ops = MemoryStore_Update"
  "Delete memory_ops = MemoryStore_Delete" "asConditionalUpdater memory_ops = Some memory_updater"
  "asAtomicClaimer memory_ops = None" "asTaskScanner memory_ops = None"
  "asInFlightCounter memory_ops = Some MemoryStore_CountInFlight"
  "asIdempotencyFinder memory_ops = Some MemoryStore_GetByIdempotencyKey"
  "records memory_ops = (\<lambda>s. length (mtasks s))"
  "UpdateIfState memory_updater = MemoryStore_UpdateIfState"
  "UpdateIfLease memory_updater = MemoryStore_UpdateIfLease"
  by (simp_all add: memory_ops_def memory_updater_def)

interpretation mem: local_store memory_ops memory_updater mem_look mem_inv
proof (unfold_locales, goal_cases)
  case (2 s) then show ?case by (simp add: mem_inv_def)
next
  case (3 s) show ?case using card_gmap_le [of "mtasks s"] by (simp add: mem_look_def)
qed (auto simp: mem_get mem_list mem_create_meets mem_update_meets mem_delete_meets mem_cas_meets
    mem_lease_is_state mem_inv_create mem_inv_update mem_inv_delete mem_inv_cas mem_create_ok mem_cas_ok
    mem_update_ok mem_delete_ok mem_finder mem_counter)

section \<open>The worker registry of MemoryStore\<close>

definition mem_wlook :: "memory_store \<Rightarrow> string \<rightharpoonup> worker" where
  "mem_wlook s = map_of (mworkers s)"

definition memory_registry :: "memory_store worker_registry" where
  "memory_registry = \<lparr>RegisterWorker = MemoryStore_RegisterWorker,
        HeartbeatWorker = MemoryStore_HeartbeatWorker, GetWorker = MemoryStore_GetWorker,
        ListWorkers = MemoryStore_ListWorkers,
        RenewWorkerTaskLeases = MemoryStore_RenewWorkerTaskLeases\<rparr>"

lemma memory_registry_sel [simp]:
  "asWorkerRegistry memory_ops = Some memory_registry"
  "RegisterWorker memory_registry = MemoryStore_RegisterWorker"
  "HeartbeatWorker memory_registry = MemoryStore_HeartbeatWorker"
  "GetWorker memory_registry = MemoryStore_GetWorker"
  "ListWorkers memory_registry = MemoryStore_ListWorkers"
  "RenewWorkerTaskLeases memory_registry = MemoryStore_RenewWorkerTaskLeases"
  by (simp_all add: memory_ops_def memory_registry_def)

lemma map_of_extended:
  "map_of (map (\<lambda>(k, t). (k, f t)) xs) = (\<lambda>k. map_option f (map_of xs k))"
  by (induction xs) auto

lemma extended_fields [simp]:
  "ID (extended wid until t) = ID t" "IdempotencyKey (extended wid until t) = IdempotencyKey t"
  "Status (extended wid until t) = Status t" "WorkerID (extended wid until t) = WorkerID t"
  "LeaseToken (extended wid until t) = LeaseToken t"
  "Validate (extended wid until t) = Validate t"
  by (simp_all add: extended_def Validate_def)

lemma clone_extended: "clone t = t \<Longrightarrow> clone (extended wid until t) = extended wid until t"
  by (cases t) (simp add: extended_def clone_def)

lemma wf_view_extended:
  assumes "wf_view m"
  shows "wf_view (\<lambda>k. map_option (extended wid until) (m k))"
proof -
  have "dom (\<lambda>k. map_option (extended wid until) (m k)) = dom m" by (auto simp: dom_def)
  with assms show ?thesis
    unfolding wf_view_def by (auto simp: clone_extended)
qed

lemma mem_renew:
  "mtasks (snd (MemoryStore_RenewWorkerTaskLeases wid until s))
     = map (\<lambda>(k, t). (k, extended wid until t)) (mtasks s)"
  "mworkers (snd (MemoryStore_RenewWorkerTaskLeases wid until s)) = mworkers s"
  "fst (MemoryStore_RenewWorkerTaskLeases wid until s) = None"
  by (simp_all add: MemoryStore_RenewWorkerTaskLeases_def extended_def)

lemma mem_renew_inv:
  assumes "mem_inv s"
  shows "mem_inv (snd (MemoryStore_RenewWorkerTaskLeases wid until s))"
proof -
  have "map fst (map (\<lambda>(k, t). (k, extended wid until t)) xs) = map fst xs" for xs :: "(string, task) gmap"
    by (induction xs) auto
  with assms wf_view_extended [of "map_of (mtasks s)" wid until] show ?thesis
    by (simp add: mem_inv_def mem_look_def mem_renew map_of_extended del: map_map)
qed

lemma mem_keeps_workers:
  "mworkers (snd (MemoryStore_Create t s)) = mworkers s" "mworkers (snd (MemoryStore_Update t s)) = mworkers s"
  "mworkers (snd (MemoryStore_Delete i s)) = mworkers s"
  "mworkers (snd (MemoryStore_UpdateIfState i st token t s)) = mworkers s"
  by (simp_all add: MemoryStore_Create_def MemoryStore_Update_def MemoryStore_Delete_def
      MemoryStore_UpdateIfState_def split: option.split)

interpretation memw: worker_store memory_ops memory_updater mem_look mem_inv memory_registry mem_wlook
proof (unfold_locales, goal_cases)
  case (6 s i)
  then show ?case by (simp add: MemoryStore_GetWorker_def mem_wlook_def)
next
  case (7 s now)
  then have "ran (mem_wlook s) = snd ` set (mworkers s)" by (simp add: mem_wlook_def mem_inv_def ran_distinct)
  then show ?case by (auto simp: MemoryStore_ListWorkers_def)
next
  case (8 s i until)
  have "RenewWorkerTaskLeases memory_registry i until s = (None, snd (MemoryStore_RenewWorkerTaskLeases i until s))"
    using mem_renew(3) [of i until s] by (simp add: prod_eq_iff)
  with 8 mem_renew_inv [of s i until] show ?case
    by (intro exI [of _ "snd (MemoryStore_RenewWorkerTaskLeases i until s)"])
      (simp add: mem_look_def mem_wlook_def mem_renew map_of_extended)
qed (auto simp: MemoryStore_RegisterWorker_def MemoryStore_HeartbeatWorker_def live_worker_def mem_wlook_def
    mem_look_def mem_inv_def gmap_simps Let_def mem_keeps_workers mem_lease_is_state)

section \<open>Properties\<close>



text \<open>A created task can be read back, by its id and by its idempotency key, and nobody can create a
  second task under either of them.\<close>

theorem create_get:
  assumes "mem_inv s" and "MemoryStore_Create t s = (None, s')"
  shows "MemoryStore_Get (ID t) s' = Inr (clone t)
     \<and> (IdempotencyKey t \<noteq> [] \<longrightarrow> MemoryStore_GetByIdempotencyKey (IdempotencyKey t) s' = Inr (clone t))
     \<and> (\<forall>u. ID u = ID t \<or> IdempotencyKey u = IdempotencyKey t \<and> IdempotencyKey t \<noteq> []
          \<longrightarrow> (\<exists>e. MemoryStore_Create u s' = (Some e, s')))"
proof -
  have inv: "mem_inv s'" using mem_inv_create [OF assms(1), of t] assms(2) by simp
  have look: "mem_look s' (ID t) = Some (clone t)"
    using mem_create_meets [OF assms(1), of t] mem.create_None_iff [OF assms(1), of t] assms(2)
    by (auto simp: meets_def create_spec_def split: if_splits)
  have "MemoryStore_GetByIdempotencyKey (IdempotencyKey t) s' = Inr (clone t)" if k: "IdempotencyKey t \<noteq> []"
  proof (cases "MemoryStore_GetByIdempotencyKey (IdempotencyKey t) s'")
    case (Inl e)
    with mem_finder [OF inv k] look k show ?thesis by (auto dest: key_freeD)
  next
    case (Inr u)
    with mem_finder [OF inv k] obtain j where "mem_look s' j = Some u" "IdempotencyKey u = IdempotencyKey t" by auto
    with mem.look_key [OF inv this(1) look] k look Inr show ?thesis by auto
  qed
  moreover have "\<exists>e. MemoryStore_Create u s' = (Some e, s')"
    if "ID u = ID t \<or> IdempotencyKey u = IdempotencyKey t \<and> IdempotencyKey t \<noteq> []" for u
    using that look mem_key_free [OF inv, of "IdempotencyKey u"] key_freeD [of "mem_look s'" "IdempotencyKey u", OF _ look]
    by (auto simp: MemoryStore_Create_def mem_look_def split: option.splits)
  ultimately show ?thesis using look mem_get [OF inv] by simp
qed

theorem create_get_witness:
  "\<exists>t s'. MemoryStore_Create t NewMemory = (None, s') \<and> ID t = ''a'' \<and> MemoryStore_Get ''a'' s' = Inr (clone t)"
proof -
  let ?t = "zero_task\<lparr>ID := ''a'', Name := ''n'', RunAt := 1, Retry := \<lparr>MaxAttempts = 1, Backoff = 0\<rparr>\<rparr>"
  have inv: "mem_inv NewMemory" by (simp add: mem_inv_def NewMemory_def mem_look_def wf_view_def)
  have "fst (MemoryStore_Create ?t NewMemory) = None" by code_simp
  then obtain s' where "MemoryStore_Create ?t NewMemory = (None, s')" by (metis prod.collapse)
  with create_get [OF inv this] show ?thesis by (intro exI [of _ ?t] exI [of _ s']) simp
qed

end
