(* ===== verification/Queue_Order.thy ===== *)
theory Queue_Order
  imports Store_Contract "HOL-Library.Multiset"
begin

text \<open>
  The two ways the program orders runnable work: \<^verbatim>\<open>store.Due\<close> (filter and stable sort, used by a
  dispatch tick) and \<^verbatim>\<open>bestDue\<close>/\<^verbatim>\<open>dueBefore\<close> of \<^verbatim>\<open>src/internal/scheduler/scheduler.go\<close> (one scan
  per candidate, used by a claim), with the lemmas that the scan picks the head of the sorted queue.
\<close>

section \<open>Definitions\<close>

definition dueBefore :: "task \<Rightarrow> task \<Rightarrow> bool" where
  "dueBefore a b =
     (if Priority a \<noteq> Priority b then Priority a > Priority b
      else if RunAt a \<noteq> RunAt b then RunAt a < RunAt b
      else ID a < ID b)"

text \<open>The scan keeps the index of the best candidate so far; \<open>None\<close> is the source's \<^verbatim>\<open>-1\<close>.\<close>

definition bestDue_step :: "task list \<Rightarrow> gtime \<Rightarrow> bool list \<Rightarrow> nat \<Rightarrow> nat option \<Rightarrow> nat option" where
  "bestDue_step tasks now skip i best =
     (let t = tasks ! i; claimable = (Status t = StatusPending \<or> Status t = StatusRetrying) in
      if skip ! i \<or> \<not> claimable \<or> now < RunAt t then best
      else case best of
             None \<Rightarrow> Some i
           | Some b \<Rightarrow> if dueBefore t (tasks ! b) then Some i else best)"

definition bestDue :: "task list \<Rightarrow> gtime \<Rightarrow> bool list \<Rightarrow> nat option" where
  "bestDue tasks now skip = fold (bestDue_step tasks now skip) [0..<length tasks] None"

section \<open>The stable sort\<close>

lemma mset_insert_stable: "mset (insert_stable lt x xs) = add_mset x (mset xs)"
  by (induction xs) auto

lemma mset_SliceStable: "mset (SliceStable lt xs) = mset xs"
  by (induction xs) (auto simp: SliceStable_def mset_insert_stable)

lemma set_insert_stable: "set (insert_stable lt x xs) = insert x (set xs)"
  by (metis mset_insert_stable set_mset_mset set_mset_add_mset_insert)

text \<open>The comparisons are strict weak orders: an element is never placed before a smaller one.\<close>

definition weak_order :: "('a \<Rightarrow> 'a \<Rightarrow> bool) \<Rightarrow> bool" where
  "weak_order lt \<longleftrightarrow> (\<forall>x y. lt x y \<longrightarrow> \<not> lt y x) \<and> (\<forall>x y z. lt x z \<longrightarrow> lt x y \<or> lt y z)"

lemma weak_order_trans_neg: "weak_order lt \<Longrightarrow> \<not> lt y x \<Longrightarrow> \<not> lt z y \<Longrightarrow> \<not> lt z x"
  unfolding weak_order_def by blast

lemma sorted_insert_stable:
  assumes "weak_order lt" and "sorted_wrt (\<lambda>a b. \<not> lt b a) xs"
  shows "sorted_wrt (\<lambda>a b. \<not> lt b a) (insert_stable lt x xs)"
  using assms(2)
proof (induction xs)
  case Nil
  then show ?case by simp
next
  case (Cons y ys)
  show ?case
  proof (cases "lt y x")
    case True
    with assms(1) have "\<not> lt x y" by (auto simp: weak_order_def)
    with True Cons show ?thesis by (simp add: set_insert_stable)
  next
    case False
    have "\<not> lt z x" if "z \<in> set ys" for z
      using that Cons.prems False weak_order_trans_neg [OF assms(1), of y x z] by auto
    with False Cons.prems show ?thesis by simp
  qed
qed

lemma sorted_SliceStable:
  assumes "weak_order lt"
  shows "sorted_wrt (\<lambda>a b. \<not> lt b a) (SliceStable lt xs)"
  by (induction xs) (simp_all add: SliceStable_def sorted_insert_stable assms)

lemma stable_insert_stable:
  assumes "weak_order lt" and "\<And>a b. P a \<Longrightarrow> P b \<Longrightarrow> \<not> lt a b"
  shows "filter P (insert_stable lt x xs) = filter P (x # xs)"
proof (induction xs)
  case Nil
  then show ?case by simp
next
  case (Cons y ys)
  with assms(2) [of y x] show ?case by auto
qed

lemma stable_SliceStable:
  assumes "weak_order lt" and "\<And>a b. P a \<Longrightarrow> P b \<Longrightarrow> \<not> lt a b"
  shows "filter P (SliceStable lt xs) = filter P xs"
proof (induction xs)
  case Nil
  then show ?case by (simp add: SliceStable_def)
next
  case (Cons x xs)
  then show ?case
    using stable_insert_stable [of lt P x "SliceStable lt xs", OF assms]
    by (simp add: SliceStable_def)
qed

lemma weak_order_due_less: "weak_order due_less"
  by (auto simp: weak_order_def due_less_def split: if_splits)

text \<open>\<^verbatim>\<open>Due\<close> returns exactly the pending and retrying tasks whose time has come, each as often as
  it was listed, ordered by descending priority and then by scheduled time, and tasks that agree in
  both keep the order of the listing.\<close>

theorem Due_correct:
  "mset (Due ts now) = mset (filter (is_due now) ts)
   \<and> sorted_wrt (\<lambda>a b. Priority a > Priority b \<or> Priority a = Priority b \<and> RunAt a \<le> RunAt b) (Due ts now)
   \<and> filter (\<lambda>t. Priority t = p \<and> RunAt t = r) (Due ts now)
       = filter (\<lambda>t. Priority t = p \<and> RunAt t = r) (filter (is_due now) ts)"
proof -
  have "sorted_wrt (\<lambda>a b. \<not> due_less b a) (Due ts now)"
    unfolding Due_def by (rule sorted_SliceStable [OF weak_order_due_less])
  then have "sorted_wrt (\<lambda>a b. Priority a > Priority b \<or> Priority a = Priority b \<and> RunAt a \<le> RunAt b) (Due ts now)"
    by (rule sorted_wrt_mono_rel [rotated]) (auto simp: due_less_def split: if_splits)
  moreover have "filter (\<lambda>t. Priority t = p \<and> RunAt t = r) (Due ts now)
       = filter (\<lambda>t. Priority t = p \<and> RunAt t = r) (filter (is_due now) ts)"
    unfolding Due_def
    by (rule stable_SliceStable [OF weak_order_due_less]) (auto simp: due_less_def)
  ultimately show ?thesis
    by (simp add: Due_def mset_SliceStable)
qed

section \<open>The scan\<close>

lemma dueBefore_asym: "dueBefore a b \<Longrightarrow> \<not> dueBefore b a"
  by (auto simp: dueBefore_def split: if_splits)

lemma dueBefore_trans: "dueBefore a b \<Longrightarrow> dueBefore b c \<Longrightarrow> dueBefore a c"
  by (auto simp: dueBefore_def split: if_splits)

lemma dueBefore_total: "ID a \<noteq> ID b \<Longrightarrow> dueBefore a b \<or> dueBefore b a"
  by (auto simp: dueBefore_def)

lemma dueBefore_neg_trans: "dueBefore a c \<Longrightarrow> dueBefore a b \<or> dueBefore b c"
  by (auto simp: dueBefore_def split: if_splits)

text \<open>The candidates a scan may pick.\<close>

definition open_at :: "task list \<Rightarrow> gtime \<Rightarrow> bool list \<Rightarrow> nat set" where
  "open_at tasks now skip = {i. i < length tasks \<and> \<not> skip ! i \<and> is_due now (tasks ! i)}"

definition scan_inv :: "task list \<Rightarrow> gtime \<Rightarrow> bool list \<Rightarrow> nat \<Rightarrow> nat option \<Rightarrow> bool" where
  "scan_inv tasks now skip n best \<longleftrightarrow>
     (case best of
        None \<Rightarrow> open_at tasks now skip \<inter> {..<n} = {}
      | Some b \<Rightarrow> b \<in> open_at tasks now skip \<inter> {..<n}
          \<and> (\<forall>j \<in> open_at tasks now skip \<inter> {..<n}. \<not> dueBefore (tasks ! j) (tasks ! b)))"

lemma scan_inv_step:
  assumes "scan_inv tasks now skip n best" and "n < length tasks"
  shows "scan_inv tasks now skip (Suc n) (bestDue_step tasks now skip n best)"
proof (cases "n \<in> open_at tasks now skip")
  case False
  then have "bestDue_step tasks now skip n best = best"
    using assms(2) by (auto simp: bestDue_step_def open_at_def is_due_def Let_def)
  moreover have "open_at tasks now skip \<inter> {..<Suc n} = open_at tasks now skip \<inter> {..<n}"
    using False by (auto simp: less_Suc_eq)
  ultimately show ?thesis using assms(1) by (simp only: scan_inv_def)
next
  case True
  then have step: "bestDue_step tasks now skip n best = (case best of None \<Rightarrow> Some n
      | Some b \<Rightarrow> if dueBefore (tasks ! n) (tasks ! b) then Some n else Some b)"
    by (auto simp: bestDue_step_def open_at_def is_due_def Let_def split: option.split)
  have op: "open_at tasks now skip \<inter> {..<Suc n} = insert n (open_at tasks now skip \<inter> {..<n})"
    using True by (auto simp: less_Suc_eq)
  show ?thesis
    unfolding step using assms(1) True unfolding scan_inv_def op
    by (auto split: option.splits dest: dueBefore_asym dueBefore_neg_trans)
qed

lemma scan_inv_fold:
  "n \<le> length tasks \<Longrightarrow> scan_inv tasks now skip n (fold (bestDue_step tasks now skip) [0..<n] None)"
proof (induction n)
  case 0
  then show ?case by (simp add: scan_inv_def)
next
  case (Suc n)
  then show ?case by (simp add: scan_inv_step)
qed

lemma bestDue_scan: "scan_inv tasks now skip (length tasks) (bestDue tasks now skip)"
  by (simp add: bestDue_def scan_inv_fold)

lemma open_at_lt: "open_at tasks now skip \<inter> {..<length tasks} = open_at tasks now skip"
  by (auto simp: open_at_def)

lemma bestDue_None: "bestDue tasks now skip = None \<longleftrightarrow> open_at tasks now skip = {}"
  using bestDue_scan [of tasks now skip]
  by (auto simp: scan_inv_def open_at_lt split: option.splits)

lemma bestDue_Some:
  assumes "bestDue tasks now skip = Some i"
  shows "i \<in> open_at tasks now skip"
    and "j \<in> open_at tasks now skip \<Longrightarrow> \<not> dueBefore (tasks ! j) (tasks ! i)"
  using bestDue_scan [of tasks now skip] assms by (auto simp: scan_inv_def open_at_lt)

text \<open>The one-pass scan of a claim agrees with the sorted queue. It finds a candidate exactly when
  \<^verbatim>\<open>Due\<close> is not empty, and the candidate has the priority and the scheduled time of the
  head of \<^verbatim>\<open>Due\<close>.\<close>

theorem bestDue_is_head_of_Due:
  "(bestDue ts now (replicate (length ts) False) = None \<longleftrightarrow> Due ts now = [])
   \<and> (\<forall>i. bestDue ts now (replicate (length ts) False) = Some i \<longrightarrow>
        i < length ts \<and> ts ! i \<in> set (Due ts now)
        \<and> Priority (ts ! i) = Priority (hd (Due ts now)) \<and> RunAt (ts ! i) = RunAt (hd (Due ts now)))"
proof -
  let ?skip = "replicate (length ts) False"
  have set: "set (Due ts now) = {t \<in> set ts. is_due now t}"
    using mset_SliceStable [of due_less "filter (is_due now) ts"]
    by (metis Due_def set_mset_mset set_filter)
  have op: "j \<in> open_at ts now ?skip \<longleftrightarrow> j < length ts \<and> is_due now (ts ! j)" for j
    by (auto simp: open_at_def)
  have "bestDue ts now ?skip = None \<longleftrightarrow> Due ts now = []"
  proof -
    have "(\<exists>j. j \<in> open_at ts now ?skip) \<longleftrightarrow> (\<exists>t. t \<in> set (Due ts now))"
      unfolding set using op by (metis (no_types, lifting) in_set_conv_nth mem_Collect_eq)
    then show ?thesis by (simp add: bestDue_None ex_in_conv)
  qed
  moreover have "i < length ts \<and> ts ! i \<in> set (Due ts now)
        \<and> Priority (ts ! i) = Priority (hd (Due ts now)) \<and> RunAt (ts ! i) = RunAt (hd (Due ts now))"
    if i: "bestDue ts now ?skip = Some i" for i
  proof -
    from bestDue_Some(1) [OF i] have mem: "i < length ts" "ts ! i \<in> set (Due ts now)"
      by (auto simp: op set)
    then obtain h tl where ht: "Due ts now = h # tl" by (cases "Due ts now") auto
    have "sorted_wrt (\<lambda>a b. \<not> due_less b a) (h # tl)"
      using sorted_SliceStable [OF weak_order_due_less, of "filter (is_due now) ts"] ht
      by (simp add: Due_def)
    with mem ht have 1: "\<not> due_less (ts ! i) h" by (auto simp: due_less_def)
    from ht set obtain j where "j \<in> open_at ts now ?skip" "ts ! j = h"
      by (metis (no_types, lifting) in_set_conv_nth list.set_intros(1) mem_Collect_eq op)
    with bestDue_Some(2) [OF i] have "\<not> dueBefore h (ts ! i)" by blast
    with 1 have "Priority (ts ! i) = Priority h \<and> RunAt (ts ! i) = RunAt h"
      by (auto simp: due_less_def dueBefore_def split: if_splits)
    with mem ht show ?thesis by simp
  qed
  ultimately show ?thesis by blast
qed

theorem bestDue_is_head_of_Due_witness:
  "bestDue [zero_task\<lparr>ID := ''a'', Status := StatusPending\<rparr>,
            zero_task\<lparr>ID := ''b'', Status := StatusPending, Priority := 3\<rparr>] 7 [False, False] = Some 1
   \<and> Priority (hd (Due [zero_task\<lparr>ID := ''a'', Status := StatusPending\<rparr>,
            zero_task\<lparr>ID := ''b'', Status := StatusPending, Priority := 3\<rparr>] 7)) = 3"
proof -
  let ?ts = "[zero_task\<lparr>ID := ''a'', Status := StatusPending\<rparr>,
            zero_task\<lparr>ID := ''b'', Status := StatusPending, Priority := 3\<rparr>]"
  have "bestDue ?ts 7 (replicate (length ?ts) False) = Some 1"
    by (simp add: bestDue_def bestDue_step_def dueBefore_def zero_task_def Let_def)
  moreover from this have "Priority (?ts ! 1) = Priority (hd (Due ?ts 7))"
    using bestDue_is_head_of_Due [of ?ts 7] by blast
  ultimately show ?thesis by simp
qed

text \<open>The pick does not depend on the order in which the map was listed: with distinct ids there is one
  best candidate.\<close>

lemma bestDue_order_independent:
  assumes "mset ts = mset us" and "distinct (map ID ts)"
    and "bestDue ts now (replicate (length ts) False) = Some i"
    and "bestDue us now (replicate (length us) False) = Some j"
  shows "ts ! i = us ! j"
proof -
  have s: "set ts = set us" using assms(1) by (rule mset_eq_setD)
  note bi = bestDue_Some [OF assms(3)] and bj = bestDue_Some [OF assms(4)]
  have mem: "ts ! i \<in> set ts" "us ! j \<in> set us" "is_due now (ts ! i)" "is_due now (us ! j)"
    using bi(1) bj(1) by (simp_all add: open_at_def)
  obtain k where "k < length us" "us ! k = ts ! i" using mem(1) s by (metis in_set_conv_nth)
  with bj(2) [of k] mem have 1: "\<not> dueBefore (ts ! i) (us ! j)" by (auto simp: open_at_def)
  obtain l where "l < length ts" "ts ! l = us ! j" using mem(2) s by (metis in_set_conv_nth)
  with bi(2) [of l] mem have "\<not> dueBefore (us ! j) (ts ! i)" by (auto simp: open_at_def)
  with 1 have "ID (ts ! i) = ID (us ! j)" using dueBefore_total by blast
  with assms(2) mem s show ?thesis by (metis distinct_map inj_on_eq_iff)
qed

end
