(* ===== verification/Scheduler_Model.thy ===== *)
theory Scheduler_Model
  imports Queue_Order
begin

text \<open>
  The scheduler of \<^verbatim>\<open>src/internal/scheduler/scheduler.go\<close> over any store: its state, every operation,
  the dispatch tick, the local workers and the start/stop lifecycle. Each operation is a function from
  the scheduler's state to its result and the new state. The type assertions on the store
  are case distinctions on the optional interfaces of \<^typ>\<open>'s store_ops\<close>.

  \<^item> \<open>running\<close> is the reservation map; its values are the cancel functions, \<open>None\<close> for nil and
    \<open>Some c\<close> for the function that cancels context \<open>c\<close>. Calling it puts \<open>c\<close> into \<open>canceledCtx\<close>.
  \<^item> \<open>queue\<close> is the buffered channel: a non-blocking send succeeds while the buffer has room.
  \<^item> \<open>leaderGate\<close> is \<open>None\<close> without a gate and otherwise the gate's current answer.
  \<^item> The latency sum is kept in nanoseconds, where the source adds floating-point seconds; the
    comparison of a latency with a bucket bound is made on nanoseconds.
  \<^item> A handler is code of the user: \<open>execute\<close> is split at the call, and what the handler returned and
    whether the task's timeout fired first are arguments of the second half.
\<close>

section \<open>State\<close>

record 's scheduler =
  store :: 's
  nworkers :: int
  interval :: duration
  handlers :: "string list"
  queue :: "task list"
  running :: "(string, nat option) gmap"
  canceledCtx :: "nat list"
  nextCtx :: nat
  workersByID :: "(string, worker) gmap"
  leaseTTL :: duration
  maxPending :: int
  leaderGate :: "bool option"
  started :: bool
  stopped :: bool
  submitted :: "64 word"
  succeeded :: "64 word"
  failed :: "64 word"
  retried :: "64 word"
  canceled :: "64 word"
  leaseExpired :: "64 word"
  queueLatencyBuckets :: "64 word list"
  queueLatencySum :: int
  queueLatencyCount :: "64 word"
  ids :: id_gen

definition Scheduler_New :: "'s \<Rightarrow> int \<Rightarrow> id_gen \<Rightarrow> 's scheduler" where
  "Scheduler_New st ws g =
     (let w = (if ws < 1 then 1 else ws) in
      \<lparr>store = st, nworkers = w, interval = 100000000, handlers = [], queue = [], running = [],
       canceledCtx = [], nextCtx = 0, workersByID = [], leaseTTL = 30000000000, maxPending = w * 100,
       leaderGate = None, started = False, stopped = False, submitted = 0, succeeded = 0, failed = 0,
       retried = 0, canceled = 0, leaseExpired = 0, queueLatencyBuckets = replicate 8 0,
       queueLatencySum = 0, queueLatencyCount = 0, ids = g\<rparr>)"

definition Scheduler_SetMaxPending :: "int \<Rightarrow> 's scheduler \<Rightarrow> 's scheduler" where
  "Scheduler_SetMaxPending limit s = (if limit > 0 then s\<lparr>maxPending := limit\<rparr> else s)"

definition Scheduler_SetLeaseTTL :: "duration \<Rightarrow> 's scheduler \<Rightarrow> 's scheduler" where
  "Scheduler_SetLeaseTTL ttl s = (if ttl > 0 then s\<lparr>leaseTTL := ttl\<rparr> else s)"

definition Scheduler_SetLeaderGate :: "bool option \<Rightarrow> 's scheduler \<Rightarrow> 's scheduler" where
  "Scheduler_SetLeaderGate g s = s\<lparr>leaderGate := g\<rparr>"

definition Scheduler_Register :: "string \<Rightarrow> bool \<Rightarrow> 's scheduler \<Rightarrow> error option \<times> 's scheduler" where
  "Scheduler_Register name nil_handler s =
     (if name = [] \<or> nil_handler then (Some (ErrNew ''handler name and function are required''), s)
      else (None, s\<lparr>handlers := List.insert name (handlers s)\<rparr>))"

section \<open>Conditional writes\<close>

text \<open>The recurring \<^verbatim>\<open>if updater, ok := s.store.(store.ConditionalUpdater); ok\<close>.\<close>

definition update_if_state ::
  "'s store_ops \<Rightarrow> string \<Rightarrow> status \<Rightarrow> string \<Rightarrow> task \<Rightarrow> 's \<Rightarrow> error option \<times> 's" where
  "update_if_state ops i st token t m =
     (case asConditionalUpdater ops of
        Some u \<Rightarrow> UpdateIfState u i st token t m
      | None \<Rightarrow> Update ops t m)"

definition update_if_lease ::
  "'s store_ops \<Rightarrow> string \<Rightarrow> string \<Rightarrow> task \<Rightarrow> 's \<Rightarrow> error option \<times> 's" where
  "update_if_lease ops i token t m =
     (case asConditionalUpdater ops of
        Some u \<Rightarrow> UpdateIfLease u i token t m
      | None \<Rightarrow> Update ops t m)"

definition listed :: "'s store_ops \<Rightarrow> 's \<Rightarrow> task list" where
  "listed ops m = (case List ops m of Inl _ \<Rightarrow> [] | Inr xs \<Rightarrow> xs)"

section \<open>Workers\<close>

definition Scheduler_RegisterWorker ::
  "'s store_ops \<Rightarrow> string \<Rightarrow> gtime \<Rightarrow> 's scheduler \<Rightarrow> (error + worker) \<times> 's scheduler" where
  "Scheduler_RegisterWorker ops i now s =
     (case asWorkerRegistry ops of
        Some registry \<Rightarrow>
          (let (res, m) = RegisterWorker registry i (leaseTTL s) now (store s); s1 = s\<lparr>store := m\<rparr> in
           case res of
             Inl e \<Rightarrow> (Inl e, s1)
           | Inr w \<Rightarrow> (Inr w, s1\<lparr>workersByID := AList.update i w (workersByID s1)\<rparr>))
      | None \<Rightarrow>
          if i = [] then (Inl (ErrNew ''worker id is required''), s)
          else let w = \<lparr>wID = i, LastHeartbeat = now, wLeaseUntil = now + leaseTTL s\<rparr> in
            (Inr w, s\<lparr>workersByID := AList.update i w (workersByID s)\<rparr>))"

text \<open>The renewal loop of a heartbeat without a worker registry.\<close>

definition renew_step :: "'s store_ops \<Rightarrow> string \<Rightarrow> gtime \<Rightarrow> task \<Rightarrow> 's \<Rightarrow> 's" where
  "renew_step ops wid until t m =
     (if Status t = StatusRunning \<and> WorkerID t = wid
      then snd (update_if_lease ops (ID t) (LeaseToken t) (t\<lparr>LeaseUntil := Some until\<rparr>) m)
      else m)"

definition Scheduler_Heartbeat ::
  "'s store_ops \<Rightarrow> string \<Rightarrow> gtime \<Rightarrow> 's scheduler \<Rightarrow> (error + worker) \<times> 's scheduler" where
  "Scheduler_Heartbeat ops i now s =
     (case asWorkerRegistry ops of
        Some registry \<Rightarrow>
          (let (res, m) = HeartbeatWorker registry i (leaseTTL s) now (store s); s1 = s\<lparr>store := m\<rparr> in
           case res of
             Inl e \<Rightarrow> (Inl e, s1)
           | Inr w \<Rightarrow>
               (Inr w, s1\<lparr>workersByID := AList.update i w (workersByID s1),
                          store := snd (RenewWorkerTaskLeases registry i (wLeaseUntil w) (store s1))\<rparr>))
      | None \<Rightarrow>
          (case map_of (workersByID s) i of
             None \<Rightarrow> (Inl (ErrNew ''worker not registered''), s)
           | Some w0 \<Rightarrow>
               (let w = w0\<lparr>LastHeartbeat := now, wLeaseUntil := now + leaseTTL s\<rparr> in
                (Inr w, s\<lparr>workersByID := AList.update i w (workersByID s),
                          store := fold (renew_step ops i (wLeaseUntil w)) (listed ops (store s)) (store s)\<rparr>))))"

definition Scheduler_Workers :: "'s store_ops \<Rightarrow> gtime \<Rightarrow> 's scheduler \<Rightarrow> worker list" where
  "Scheduler_Workers ops now s =
     (case asWorkerRegistry ops of
        Some registry \<Rightarrow> (case ListWorkers registry now (store s) of Inr ws \<Rightarrow> ws | Inl _ \<Rightarrow> [])
      | None \<Rightarrow> filter (\<lambda>w. now < wLeaseUntil w) (map snd (workersByID s)))"

definition Scheduler_workerHealthy :: "'s store_ops \<Rightarrow> string \<Rightarrow> gtime \<Rightarrow> 's scheduler \<Rightarrow> bool" where
  "Scheduler_workerHealthy ops i now s =
     (case asWorkerRegistry ops of
        Some registry \<Rightarrow>
          (case GetWorker registry i (store s) of Inr w \<Rightarrow> now < wLeaseUntil w | Inl _ \<Rightarrow> False)
      | None \<Rightarrow> (case map_of (workersByID s) i of Some w \<Rightarrow> now < wLeaseUntil w | None \<Rightarrow> False))"

definition Scheduler_pickWorker :: "gtime \<Rightarrow> 's scheduler \<Rightarrow> string" where
  "Scheduler_pickWorker now s =
     (case List.find (\<lambda>e. now < wLeaseUntil (snd e)) (workersByID s) of
        None \<Rightarrow> [] | Some e \<Rightarrow> fst e)"

definition HasPrefix :: "string \<Rightarrow> string \<Rightarrow> bool" where
  "HasPrefix s pre \<longleftrightarrow> take (length pre) s = pre"

definition Scheduler_isLocalWorker :: "string \<Rightarrow> 's scheduler \<Rightarrow> bool" where
  "Scheduler_isLocalWorker i s \<longleftrightarrow> map_of (workersByID s) i \<noteq> None \<and> HasPrefix i ''local-''"

section \<open>Submission\<close>

definition Scheduler_FindByIdempotencyKey :: "'s store_ops \<Rightarrow> string \<Rightarrow> 's scheduler \<Rightarrow> error + task" where
  "Scheduler_FindByIdempotencyKey ops key s =
     (if key = [] then Inl ErrNotFound
      else case asIdempotencyFinder ops of
             Some finder \<Rightarrow> finder key (store s)
           | None \<Rightarrow>
               (case List ops (store s) of
                  Inl e \<Rightarrow> Inl e
                | Inr items \<Rightarrow>
                    (case List.find (\<lambda>t. IdempotencyKey t = key) items of
                       None \<Rightarrow> Inl ErrNotFound | Some t \<Rightarrow> Inr t)))"

definition Scheduler_inFlightCount :: "'s store_ops \<Rightarrow> 's scheduler \<Rightarrow> error + int" where
  "Scheduler_inFlightCount ops s =
     (case asInFlightCounter ops of
        Some counter \<Rightarrow> counter (store s)
      | None \<Rightarrow>
          (case List ops (store s) of
             Inl e \<Rightarrow> Inl e
           | Inr items \<Rightarrow>
               Inr (foldl (\<lambda>count t. if IsInFlight (Status t) then count + 1 else count) 0 items)))"

text \<open>\<^verbatim>\<open>dependsOn\<close> and its loop over the dependencies, with the shared \<^verbatim>\<open>seen\<close> map passed through.
  The first argument bounds the recursion depth; \<open>None\<close> means that it was used up.\<close>

fun dependsOn :: "nat \<Rightarrow> 's store_ops \<Rightarrow> 's \<Rightarrow> string \<Rightarrow> string \<Rightarrow> string list \<Rightarrow> (bool \<times> string list) option"
  and dependsOn_loop :: "nat \<Rightarrow> 's store_ops \<Rightarrow> 's \<Rightarrow> string list \<Rightarrow> string \<Rightarrow> string list \<Rightarrow> (bool \<times> string list) option"
where
  "dependsOn 0 ops m i target seen = None"
| "dependsOn (Suc n) ops m i target seen =
     (if i = target then Some (True, seen)
      else if i \<in> set seen then Some (False, seen)
      else case Get ops i m of
             Inl _ \<Rightarrow> Some (False, i # seen)
           | Inr t \<Rightarrow> dependsOn_loop n ops m (elems (DependsOn t)) target (i # seen))"
| "dependsOn_loop n ops m [] target seen = Some (False, seen)"
| "dependsOn_loop n ops m (d # ds) target seen =
     (case dependsOn n ops m d target seen of
        None \<Rightarrow> None
      | Some (True, seen') \<Rightarrow> Some (True, seen')
      | Some (False, seen') \<Rightarrow> dependsOn_loop n ops m ds target seen')"

fun check_deps :: "'s store_ops \<Rightarrow> 's \<Rightarrow> string \<Rightarrow> string list \<Rightarrow> error option" where
  "check_deps ops m i [] = None"
| "check_deps ops m i (dep # deps) =
     (if dep = i then Some (ErrNew ''task cannot depend on itself'')
      else case Get ops dep m of
             Inl _ \<Rightarrow> Some (ErrNew (''dependency '' @ dep @ '' not found''))
           | Inr _ \<Rightarrow>
               (case dependsOn (Suc (Suc (records ops m))) ops m dep i [] of
                  None \<Rightarrow> Some Diverges
                | Some (True, _) \<Rightarrow> Some (ErrNew (''dependency cycle detected through '' @ dep))
                | Some (False, _) \<Rightarrow> check_deps ops m i deps))"

text \<open>The defaults \<^verbatim>\<open>Submit\<close> fills in, in the source's order; the first reading of the clock is the one
  of \<^verbatim>\<open>NewID\<close>.\<close>

definition submit_defaults :: "clock \<Rightarrow> id_gen \<Rightarrow> task \<Rightarrow> task \<times> id_gen" where
  "submit_defaults clk g t =
     (let (t1, g') = (if ID t = [] then let (i, g') = NewID (clk 0) g in (t\<lparr>ID := i\<rparr>, g') else (t, g));
          t2 = (if RunAt t1 = 0 then t1\<lparr>RunAt := clk 1\<rparr> else t1);
          t3 = (if CreatedAt t2 = 0 then t2\<lparr>CreatedAt := clk 2\<rparr> else t2);
          t4 = (if Status t3 = [] then t3\<lparr>Status := StatusPending\<rparr> else t3);
          t5 = (if MaxAttempts (Retry t4) < 1 then t4\<lparr>Retry := (Retry t4)\<lparr>MaxAttempts := 1\<rparr>\<rparr> else t4)
      in (t5, g'))"

definition backpressure :: "'s store_ops \<Rightarrow> 's scheduler \<Rightarrow> error option" where
  "backpressure ops s =
     (if maxPending s > 0 then
        (case Scheduler_inFlightCount ops s of
           Inl e \<Rightarrow> Some e
         | Inr inFlight \<Rightarrow> if inFlight \<ge> maxPending s then Some ErrBackpressure else None)
      else None)"

definition Scheduler_Submit ::
  "'s store_ops \<Rightarrow> clock \<Rightarrow> task \<Rightarrow> 's scheduler \<Rightarrow> error option \<times> 's scheduler" where
  "Scheduler_Submit ops clk t s =
     (case (if IdempotencyKey t = [] then Inl ErrNotFound
            else Scheduler_FindByIdempotencyKey ops (IdempotencyKey t) s) of
        Inr existing \<Rightarrow>
          (Some (ErrWrap (''duplicate task '' @ ID existing) ErrDuplicateIdempotencyKey), s)
      | Inl _ \<Rightarrow>
          (case backpressure ops s of
             Some e \<Rightarrow> (Some e, s)
           | None \<Rightarrow>
               (let (t', g) = submit_defaults clk (ids s) t; s1 = s\<lparr>ids := g\<rparr> in
                case check_deps ops (store s1) (ID t') (elems (DependsOn t')) of
                  Some e \<Rightarrow> (Some e, s1)
                | None \<Rightarrow>
                    (let (err, m) = Create ops t' (store s1); s2 = s1\<lparr>store := m\<rparr> in
                     case err of
                       None \<Rightarrow> (None, s2\<lparr>submitted := submitted s2 + 1\<rparr>)
                     | Some e \<Rightarrow> (Some e, s2)))))"

section \<open>Metrics\<close>

definition queueLatencyBounds :: "int list" where
  "queueLatencyBounds = [100000000, 1000000000, 5000000000, 10000000000, 15000000000, 30000000000, 60000000000]"

definition observe :: "int \<Rightarrow> 64 word list \<Rightarrow> 64 word list" where
  "observe ns buckets =
     map (\<lambda>(i, c). if i < length queueLatencyBounds
                   then (if ns \<le> queueLatencyBounds ! i then c + 1 else c)
                   else c + 1) (enumerate 0 buckets)"

definition Scheduler_observeQueueLatency :: "task \<Rightarrow> gtime \<Rightarrow> 's scheduler \<Rightarrow> 's scheduler" where
  "Scheduler_observeQueueLatency t now s =
     (let d = sat64 (now - RunAt t); ns = (if d < 0 then 0 else d) in
      s\<lparr>queueLatencyBuckets := observe ns (queueLatencyBuckets s),
        queueLatencySum := queueLatencySum s + ns,
        queueLatencyCount := queueLatencyCount s + 1\<rparr>)"

section \<open>Dependencies\<close>

text \<open>The result is the pair of the source: ready, and the reason why the task can never become ready
  (empty for none).\<close>

fun ready_deps :: "'s store_ops \<Rightarrow> 's \<Rightarrow> string list \<Rightarrow> bool \<times> string" where
  "ready_deps ops m [] = (True, [])"
| "ready_deps ops m (i # is) =
     (case Get ops i m of
        Inl _ \<Rightarrow> (False, ''dependency '' @ i @ '' not found'')
      | Inr dep \<Rightarrow>
          if Status dep = StatusFailed \<or> Status dep = StatusCanceled
          then (False, ''dependency '' @ i @ '' did not succeed'')
          else if Status dep \<noteq> StatusSuccess then (False, [])
          else ready_deps ops m is)"

definition Scheduler_dependenciesReady :: "'s store_ops \<Rightarrow> task \<Rightarrow> 's \<Rightarrow> bool \<times> string" where
  "Scheduler_dependenciesReady ops t m = ready_deps ops m (elems (DependsOn t))"

definition failed_record :: "string \<Rightarrow> gtime \<Rightarrow> task \<Rightarrow> task" where
  "failed_record reason now t = t\<lparr>Status := StatusFailed, LastError := reason, FinishedAt := Some now\<rparr>"

definition Scheduler_failUnreadyTask ::
  "'s store_ops \<Rightarrow> task \<Rightarrow> string \<Rightarrow> gtime \<Rightarrow> 's \<Rightarrow> 's" where
  "Scheduler_failUnreadyTask ops t reason now m =
     snd (update_if_state ops (ID t) (Status t) (LeaseToken t) (failed_record reason now t) m)"

section \<open>Claiming\<close>

definition lease_token :: "gtime \<Rightarrow> string \<Rightarrow> string" where
  "lease_token now i = dec_int (UnixNano now) @ ''-'' @ i"

definition claimed_record :: "string \<Rightarrow> gtime \<Rightarrow> duration \<Rightarrow> string \<Rightarrow> task \<Rightarrow> task" where
  "claimed_record wid now ttl token t =
     t\<lparr>Status := StatusRunning, Attempts := inc64 (Attempts t), StartedAt := Some now, WorkerID := wid,
       LeaseUntil := Some (now + ttl), LeaseToken := token\<rparr>"

definition Scheduler_commitClaim ::
  "'s store_ops \<Rightarrow> string \<Rightarrow> string \<Rightarrow> duration \<Rightarrow> gtime \<Rightarrow> 's \<Rightarrow> (error + task) \<times> 's" where
  "Scheduler_commitClaim ops wid i ttl now m =
     (case Get ops i m of
        Inl _ \<Rightarrow> (Inl ErrClaimLost, m)
      | Inr current \<Rightarrow>
          if Status current \<noteq> StatusPending \<and> Status current \<noteq> StatusRetrying then (Inl ErrClaimLost, m)
          else if now < RunAt current then (Inl ErrClaimLost, m)
          else let new = claimed_record wid now ttl (lease_token now i) current;
                   (err, m') = update_if_state ops i (Status current) (LeaseToken current) new m in
            (case err of None \<Rightarrow> (Inr new, m') | Some _ \<Rightarrow> (Inl ErrClaimLost, m')))"

text \<open>The candidate loop of \<^verbatim>\<open>Claim\<close>. The first argument bounds the iterations; every iteration marks one
  more candidate, so the number of candidates plus one is enough.\<close>

fun claim_loop ::
  "nat \<Rightarrow> 's store_ops \<Rightarrow> string \<Rightarrow> task list \<Rightarrow> gtime \<Rightarrow> clock \<Rightarrow> bool list \<Rightarrow> 's scheduler
   \<Rightarrow> (error + task) \<times> 's scheduler" where
  "claim_loop 0 ops wid items now clk skip s = (Inl Diverges, s)"
| "claim_loop (Suc n) ops wid items now clk skip s =
     (case bestDue items now skip of
        None \<Rightarrow> (Inl ErrNoTask, s)
      | Some index \<Rightarrow>
          (let skip' = skip[index := True]; t = items ! index; clk' = later 2 clk;
               (ready, dependencyErr) = Scheduler_dependenciesReady ops t (store s) in
           if dependencyErr \<noteq> [] then
             claim_loop n ops wid items now clk' skip'
               (s\<lparr>store := Scheduler_failUnreadyTask ops t dependencyErr (clk 0) (store s)\<rparr>)
           else if \<not> ready then claim_loop n ops wid items now clk' skip' s
           else if map_of (running s) (ID t) \<noteq> None then claim_loop n ops wid items now clk' skip' s
           else
             (let s1 = s\<lparr>running := AList.update (ID t) None (running s)\<rparr>;
                  (res, m) = Scheduler_commitClaim ops wid (ID t) (leaseTTL s) (clk 0) (store s1);
                  s2 = s1\<lparr>store := m\<rparr> in
              case res of
                Inl e \<Rightarrow>
                  (let s3 = s2\<lparr>running := AList.delete (ID t) (running s2)\<rparr> in
                   if errors_Is e ErrClaimLost then claim_loop n ops wid items now clk' skip' s3
                   else (Inl e, s3))
              | Inr claimed \<Rightarrow> (Inr claimed, Scheduler_observeQueueLatency claimed (clk 1) s2))))"

definition Scheduler_Claim ::
  "'s store_ops \<Rightarrow> string \<Rightarrow> clock \<Rightarrow> 's scheduler \<Rightarrow> (error + task) \<times> 's scheduler" where
  "Scheduler_Claim ops wid clk s =
     (if leaderGate s = Some False then (Inl (ErrNew ''scheduler is not leader''), s)
      else if \<not> Scheduler_workerHealthy ops wid (clk 0) s
        then (Inl (ErrNew ''worker is not registered or lease expired''), s)
      else case asAtomicClaimer ops of
             Some claimer \<Rightarrow>
               (let (res, m) = claimer wid (leaseTTL s) (later 1 clk) (store s); s1 = s\<lparr>store := m\<rparr> in
                case res of
                  Inl e \<Rightarrow> (Inl (if errors_Is e ErrNoTaskAvailable then ErrNoTask else e), s1)
                | Inr claimed \<Rightarrow> (Inr claimed, Scheduler_observeQueueLatency claimed (clk 3) s1))
           | None \<Rightarrow>
               (case List ops (store s) of
                  Inl e \<Rightarrow> (Inl e, s)
                | Inr items \<Rightarrow>
                    claim_loop (Suc (length items)) ops wid items (clk 1) (later 2 clk)
                      (replicate (length items) False) s))"

section \<open>Completion and leases\<close>

definition validLease :: "task \<Rightarrow> string \<Rightarrow> string \<Rightarrow> gtime \<Rightarrow> bool" where
  "validLease t wid token now \<longleftrightarrow>
     Status t = StatusRunning \<and> WorkerID t = wid \<and> LeaseToken t = token
     \<and> (case LeaseUntil t of None \<Rightarrow> False | Some until \<Rightarrow> now < until)"

text \<open>The record \<^verbatim>\<open>finish\<close> writes, and the counter it bumps.\<close>

datatype metric = Succeeded | Retried | Failed

definition finished_record :: "error option \<Rightarrow> gtime \<Rightarrow> task \<Rightarrow> task \<times> metric" where
  "finished_record runErr now current =
     (let c = current\<lparr>RunCount := inc64 (RunCount current), FinishedAt := Some now, LeaseUntil := None,
                     WorkerID := [], LeaseToken := []\<rparr> in
      case runErr of
        None \<Rightarrow>
          (let c' = c\<lparr>LastError := []\<rparr> in
           (if Schedule c' > 0
            then c'\<lparr>Status := StatusPending, RunAt := now + Schedule c', FinishedAt := None,
                    Attempts := 0, StartedAt := None\<rparr>
            else c'\<lparr>Status := StatusSuccess\<rparr>, Succeeded))
      | Some e \<Rightarrow>
          if Attempts c < MaxAttempts (Retry c)
          then (c\<lparr>Status := StatusRetrying, LastError := error_text e, RunAt := now + Backoff (Retry c),
                  FinishedAt := None\<rparr>, Retried)
          else (c\<lparr>Status := StatusFailed, LastError := error_text e\<rparr>, Failed))"

definition count_metric :: "metric \<Rightarrow> 's scheduler \<Rightarrow> 's scheduler" where
  "count_metric mt s =
     (case mt of
        Succeeded \<Rightarrow> s\<lparr>succeeded := succeeded s + 1\<rparr>
      | Retried \<Rightarrow> s\<lparr>retried := retried s + 1\<rparr>
      | Failed \<Rightarrow> s\<lparr>failed := failed s + 1\<rparr>)"

definition Scheduler_finish ::
  "'s store_ops \<Rightarrow> task \<Rightarrow> error option \<Rightarrow> gtime \<Rightarrow> 's scheduler \<Rightarrow> error option \<times> 's scheduler" where
  "Scheduler_finish ops current runErr now s =
     (let (new, mt) = finished_record runErr now current;
          (err, m) = update_if_state ops (ID current) StatusRunning (LeaseToken current) new (store s);
          s1 = s\<lparr>store := m\<rparr> in
      case err of Some e \<Rightarrow> (Some e, s1) | None \<Rightarrow> (None, count_metric mt s1))"

definition Scheduler_RenewTaskLease ::
  "'s store_ops \<Rightarrow> string \<Rightarrow> string \<Rightarrow> string \<Rightarrow> clock \<Rightarrow> 's scheduler \<Rightarrow> (error + task) \<times> 's scheduler" where
  "Scheduler_RenewTaskLease ops wid i token clk s =
     (case Get ops i (store s) of
        Inl e \<Rightarrow> (Inl e, s)
      | Inr t \<Rightarrow>
          if \<not> validLease t wid token (clk 0) then (Inl (ErrNew ''invalid task lease''), s)
          else let t' = t\<lparr>LeaseUntil := Some (clk 1 + leaseTTL s)\<rparr>;
                   (err, m) = update_if_lease ops (ID t') token t' (store s);
                   s1 = s\<lparr>store := m\<rparr> in
            (case err of Some e \<Rightarrow> (Inl e, s1) | None \<Rightarrow> (Inr t', s1)))"

definition Scheduler_CompleteTaskWithResult ::
  "'s store_ops \<Rightarrow> string \<Rightarrow> string \<Rightarrow> string \<Rightarrow> string \<Rightarrow> char slice \<Rightarrow> clock \<Rightarrow> 's scheduler
   \<Rightarrow> error option \<times> 's scheduler" where
  "Scheduler_CompleteTaskWithResult ops wid i token failure res clk s =
     (case Get ops i (store s) of
        Inl e \<Rightarrow> (Some e, s)
      | Inr t \<Rightarrow>
          if \<not> validLease t wid token (clk 0) then (Some (ErrNew ''invalid task lease''), s)
          else let runErr = (if failure \<noteq> [] then Some (ErrNew failure) else None);
                   t' = (if runErr = None then t\<lparr>Result := append_nil res\<rparr> else t);
                   (err, s1) = Scheduler_finish ops t' runErr (clk 1) s in
            (case err of
               Some e \<Rightarrow> (Some e, s1)
             | None \<Rightarrow> (None, s1\<lparr>running := AList.delete i (running s1)\<rparr>)))"

definition Scheduler_CompleteTask ::
  "'s store_ops \<Rightarrow> string \<Rightarrow> string \<Rightarrow> string \<Rightarrow> string \<Rightarrow> clock \<Rightarrow> 's scheduler \<Rightarrow> error option \<times> 's scheduler" where
  "Scheduler_CompleteTask ops wid i token failure clk s =
     Scheduler_CompleteTaskWithResult ops wid i token failure None clk s"

section \<open>Cancellation and deletion\<close>

definition call_cancel :: "nat option \<Rightarrow> 's scheduler \<Rightarrow> 's scheduler" where
  "call_cancel f s = (case f of None \<Rightarrow> s | Some c \<Rightarrow> s\<lparr>canceledCtx := c # canceledCtx s\<rparr>)"

definition release :: "string \<Rightarrow> 's scheduler \<Rightarrow> 's scheduler" where
  "release i s =
     (case map_of (running s) i of
        None \<Rightarrow> s
      | Some f \<Rightarrow> (call_cancel f s)\<lparr>running := AList.delete i (running s)\<rparr>)"

definition canceled_record :: "gtime \<Rightarrow> task \<Rightarrow> task" where
  "canceled_record now t =
     t\<lparr>Status := StatusCanceled, LastError := error_text ErrCanceled, FinishedAt := Some now\<rparr>"

definition Scheduler_Cancel ::
  "'s store_ops \<Rightarrow> string \<Rightarrow> gtime \<Rightarrow> 's scheduler \<Rightarrow> error option \<times> 's scheduler" where
  "Scheduler_Cancel ops i now s =
     (case Get ops i (store s) of
        Inl e \<Rightarrow> (Some e, s)
      | Inr t \<Rightarrow>
          if IsTerminal t then (None, s)
          else let s1 = release i s;
                   (err, m) = update_if_state ops i (Status t) (LeaseToken t) (canceled_record now t) (store s1);
                   s2 = s1\<lparr>store := m\<rparr> in
            (case err of None \<Rightarrow> (None, s2\<lparr>canceled := canceled s2 + 1\<rparr>) | Some e \<Rightarrow> (Some e, s2)))"

definition Scheduler_Purge ::
  "'s store_ops \<Rightarrow> string \<Rightarrow> 's scheduler \<Rightarrow> error option \<times> 's scheduler" where
  "Scheduler_Purge ops i s =
     (case Get ops i (store s) of
        Inl e \<Rightarrow> (Some e, s)
      | Inr t \<Rightarrow>
          if Status t = StatusRunning
          then (Some (ErrNew (''task '' @ i @ '' is running: cancel it and wait for the lease to expire first'')), s)
          else let (err, m) = Delete ops i (store s) in (err, s\<lparr>store := m\<rparr>))"

section \<open>Recovery\<close>

text \<open>The record written when a running task is taken back: by the reaper, at start and at stop.\<close>

definition retry_record :: "string \<Rightarrow> gtime \<Rightarrow> task \<Rightarrow> task" where
  "retry_record reason now t =
     t\<lparr>Status := StatusRetrying, RunAt := now, WorkerID := [], LeaseUntil := None, LeaseToken := [],
       LastError := reason\<rparr>"

definition lease_lapsed :: "gtime \<Rightarrow> task \<Rightarrow> bool" where
  "lease_lapsed now t \<longleftrightarrow> Status t = StatusRunning
     \<and> (case LeaseUntil t of None \<Rightarrow> False | Some until \<Rightarrow> \<not> now < until)"

definition reap_step :: "'s store_ops \<Rightarrow> gtime \<Rightarrow> task \<Rightarrow> 's scheduler \<Rightarrow> 's scheduler" where
  "reap_step ops now t s =
     (if \<not> lease_lapsed now t then s
      else if IsTerminal t then s
      else let s1 = release (ID t) s; new = retry_record ''worker lease expired'' now t in
        case asConditionalUpdater ops of
          Some u \<Rightarrow>
            (let (err, m) = UpdateIfState u (ID t) StatusRunning (LeaseToken t) new (store s1);
                 s2 = s1\<lparr>store := m\<rparr> in
             if err = None then s2\<lparr>leaseExpired := leaseExpired s2 + 1\<rparr> else s2)
        | None \<Rightarrow>
            (case Get ops (ID t) (store s1) of
               Inl _ \<Rightarrow> s1
             | Inr current \<Rightarrow>
                 if Status current \<noteq> StatusRunning \<or> LeaseToken current \<noteq> LeaseToken t then s1
                 else let (err, m) = Update ops new (store s1); s2 = s1\<lparr>store := m\<rparr> in
                   if err = None then s2\<lparr>leaseExpired := leaseExpired s2 + 1\<rparr> else s2))"

definition Scheduler_expiredCandidates :: "'s store_ops \<Rightarrow> gtime \<Rightarrow> 's scheduler \<Rightarrow> error + task list" where
  "Scheduler_expiredCandidates ops now s =
     (case asTaskScanner ops of
        Some scanner \<Rightarrow> ListExpired scanner now (store s)
      | None \<Rightarrow> List ops (store s))"

definition Scheduler_reapExpired :: "'s store_ops \<Rightarrow> clock \<Rightarrow> 's scheduler \<Rightarrow> 's scheduler" where
  "Scheduler_reapExpired ops clk s =
     (case Scheduler_expiredCandidates ops (clk 0) s of
        Inl _ \<Rightarrow> s
      | Inr items \<Rightarrow> fold (reap_step ops (clk 1)) items s)"

definition recover_step :: "'s store_ops \<Rightarrow> gtime \<Rightarrow> task \<Rightarrow> 's \<Rightarrow> 's" where
  "recover_step ops now t m =
     (if Status t \<noteq> StatusRunning then m
      else snd (Update ops (retry_record ''scheduler restarted while task was running'' now t) m))"

definition Scheduler_recoverRunning :: "'s store_ops \<Rightarrow> gtime \<Rightarrow> 's scheduler \<Rightarrow> 's scheduler" where
  "Scheduler_recoverRunning ops now s =
     s\<lparr>store := fold (recover_step ops now) (listed ops (store s)) (store s)\<rparr>"

definition requeue_step :: "'s store_ops \<Rightarrow> gtime \<Rightarrow> task \<Rightarrow> 's scheduler \<Rightarrow> 's scheduler" where
  "requeue_step ops now t s =
     (if Status t \<noteq> StatusRunning \<or> \<not> Scheduler_isLocalWorker (WorkerID t) s then s
      else s\<lparr>store := snd (update_if_state ops (ID t) StatusRunning (LeaseToken t)
               (retry_record ''scheduler stopped while task was running'' now t) (store s))\<rparr>)"

definition Scheduler_requeueRunningOnStop :: "'s store_ops \<Rightarrow> gtime \<Rightarrow> 's scheduler \<Rightarrow> 's scheduler" where
  "Scheduler_requeueRunningOnStop ops now s = fold (requeue_step ops now) (listed ops (store s)) s"

section \<open>Dispatch\<close>

definition Scheduler_dueTasks :: "'s store_ops \<Rightarrow> gtime \<Rightarrow> 's scheduler \<Rightarrow> error + task list" where
  "Scheduler_dueTasks ops now s =
     (case asTaskScanner ops of
        Some scanner \<Rightarrow> ListDue scanner now (store s)
      | None \<Rightarrow> (case List ops (store s) of Inl e \<Rightarrow> Inl e | Inr items \<Rightarrow> Inr (Due items now)))"

text \<open>The rollback when all workers are busy keeps the lease fields of the attempt it undoes.\<close>

definition rollback_record :: "task \<Rightarrow> task" where
  "rollback_record t = t\<lparr>Status := StatusPending, Attempts := dec64 (Attempts t)\<rparr>"

definition dispatch_step :: "'s store_ops \<Rightarrow> clock \<Rightarrow> task \<Rightarrow> 's scheduler \<Rightarrow> 's scheduler" where
  "dispatch_step ops clk t s =
     (let (ready, dependencyErr) = Scheduler_dependenciesReady ops t (store s) in
      if dependencyErr \<noteq> []
        then s\<lparr>store := Scheduler_failUnreadyTask ops t dependencyErr (clk 0) (store s)\<rparr>
      else if \<not> ready then s
      else if map_of (running s) (ID t) \<noteq> None \<or> Name t \<notin> set (handlers s) then s
      else
        (let s1 = s\<lparr>running := AList.update (ID t) None (running s)\<rparr>;
             new = claimed_record (Scheduler_pickWorker (clk 1) s1) (clk 0) (leaseTTL s1)
                     (lease_token (clk 0) (ID t)) t;
             (err, m) = update_if_state ops (ID t) (Status t) (LeaseToken t) new (store s1);
             s2 = s1\<lparr>store := m\<rparr> in
         case err of
           Some _ \<Rightarrow> s2\<lparr>running := AList.delete (ID t) (running s2)\<rparr>
         | None \<Rightarrow>
             (let s3 = Scheduler_observeQueueLatency new (clk 2) s2 in
              if int (length (queue s3)) < nworkers s3 * 2 then s3\<lparr>queue := queue s3 @ [new]\<rparr>
              else s3\<lparr>store := snd (update_if_state ops (ID t) StatusRunning (LeaseToken new)
                                     (rollback_record new) (store s3)),
                      running := AList.delete (ID t) (running s3)\<rparr>)))"

fun dispatch_loop :: "'s store_ops \<Rightarrow> clock \<Rightarrow> task list \<Rightarrow> 's scheduler \<Rightarrow> 's scheduler" where
  "dispatch_loop ops clk [] s = s"
| "dispatch_loop ops clk (t # ts) s = dispatch_loop ops (later 3 clk) ts (dispatch_step ops clk t s)"

definition Scheduler_dispatch :: "'s store_ops \<Rightarrow> clock \<Rightarrow> 's scheduler \<Rightarrow> 's scheduler" where
  "Scheduler_dispatch ops clk s =
     (if leaderGate s = Some False then s
      else let s1 = Scheduler_reapExpired ops clk s in
        case Scheduler_dueTasks ops (clk 2) s1 of
          Inl _ \<Rightarrow> s1
        | Inr items \<Rightarrow> dispatch_loop ops (later 3 clk) items s1)"

section \<open>Local execution\<close>

definition execute_begin :: "'s store_ops \<Rightarrow> task \<Rightarrow> 's scheduler \<Rightarrow> nat option \<times> 's scheduler" where
  "execute_begin ops t s =
     (case Get ops (ID t) (store s) of
        Inl _ \<Rightarrow> (None, s\<lparr>running := AList.delete (ID t) (running s)\<rparr>)
      | Inr current \<Rightarrow>
          if Status current \<noteq> StatusRunning \<or> LeaseToken current \<noteq> LeaseToken t
          then (None, s\<lparr>running := AList.delete (ID t) (running s)\<rparr>)
          else (Some (nextCtx s), s\<lparr>running := AList.update (ID t) (Some (nextCtx s)) (running s),
                                    nextCtx := Suc (nextCtx s)\<rparr>))"

definition ctx_err :: "task \<Rightarrow> nat \<Rightarrow> bool \<Rightarrow> 's scheduler \<Rightarrow> error option" where
  "ctx_err t c timedOut s =
     (if Timeout t > 0 \<and> timedOut then Some ErrDeadlineExceeded
      else if c \<in> set (canceledCtx s) then Some ErrContextCanceled else None)"

definition execute_end ::
  "'s store_ops \<Rightarrow> task \<Rightarrow> nat \<Rightarrow> error option \<Rightarrow> bool \<Rightarrow> gtime \<Rightarrow> 's scheduler \<Rightarrow> 's scheduler" where
  "execute_end ops t c handlerErr timedOut now s =
     (let err = (if handlerErr = None then ctx_err t c timedOut s else handlerErr);
          s1 = (case Get ops (ID t) (store s) of
                  Inl _ \<Rightarrow> s
                | Inr current \<Rightarrow>
                    if Status current \<noteq> StatusRunning \<or> LeaseToken current \<noteq> LeaseToken t then s
                    else snd (Scheduler_finish ops current err now s)) in
      s1\<lparr>running := AList.delete (ID t) (running s1), canceledCtx := c # canceledCtx s1\<rparr>)"

text \<open>One round of a local worker goroutine: take a task from the queue and start it.\<close>

definition worker_receive :: "'s store_ops \<Rightarrow> 's scheduler \<Rightarrow> (task \<times> nat) option \<times> 's scheduler" where
  "worker_receive ops s =
     (case queue s of
        [] \<Rightarrow> (None, s)
      | t # q \<Rightarrow>
          (let (c, s1) = execute_begin ops t (s\<lparr>queue := q\<rparr>) in (map_option (Pair t) c, s1)))"

section \<open>Lifecycle\<close>

definition local_worker_id :: "gtime \<Rightarrow> nat \<Rightarrow> string" where
  "local_worker_id now k = ''local-'' @ dec_int (UnixNano now) @ ''-'' @ dec_nat k"

fun register_locals :: "'s store_ops \<Rightarrow> gtime \<Rightarrow> clock \<Rightarrow> nat list \<Rightarrow> 's scheduler \<Rightarrow> 's scheduler" where
  "register_locals ops now clk [] s = s"
| "register_locals ops now clk (k # ks) s =
     register_locals ops now (later 1 clk) ks
       (snd (Scheduler_RegisterWorker ops (local_worker_id now k) (clk 0) s))"

definition Scheduler_Start :: "'s store_ops \<Rightarrow> clock \<Rightarrow> 's scheduler \<Rightarrow> 's scheduler" where
  "Scheduler_Start ops clk s =
     (if started s \<and> \<not> stopped s then s
      else let s1 = s\<lparr>stopped := False, started := True\<rparr>;
               n = nat (nworkers s1);
               s2 = register_locals ops (clk 0) (later 1 clk) [0..<n] s1 in
        case asAtomicClaimer ops of
          Some _ \<Rightarrow> s2
        | None \<Rightarrow> Scheduler_recoverRunning ops (clk (Suc n)) s2)"

text \<open>Cancelling the scheduler's context cancels the contexts derived from it; the loop then runs its
  deferred function. \<^verbatim>\<open>Stop\<close> waits for that, so it is part of it here; the loop also ends this way
  when the parent context is cancelled without \<^verbatim>\<open>Stop\<close>.\<close>

definition Scheduler_loop_exit :: "'s store_ops \<Rightarrow> gtime \<Rightarrow> 's scheduler \<Rightarrow> 's scheduler" where
  "Scheduler_loop_exit ops now s =
     (let s1 = Scheduler_requeueRunningOnStop ops now (s\<lparr>canceledCtx := [0..<nextCtx s] @ canceledCtx s\<rparr>) in
      s1\<lparr>stopped := True, started := False\<rparr>)"

definition Scheduler_Stop :: "'s store_ops \<Rightarrow> gtime \<Rightarrow> 's scheduler \<Rightarrow> 's scheduler" where
  "Scheduler_Stop ops now s =
     (if \<not> started s \<or> stopped s then s
      else Scheduler_loop_exit ops now (s\<lparr>stopped := True\<rparr>))"

fun heartbeat_loop :: "'s store_ops \<Rightarrow> clock \<Rightarrow> string list \<Rightarrow> 's scheduler \<Rightarrow> 's scheduler" where
  "heartbeat_loop ops clk [] s = s"
| "heartbeat_loop ops clk (i # is) s =
     heartbeat_loop ops (later 1 clk) is (snd (Scheduler_Heartbeat ops i (clk 0) s))"

definition Scheduler_heartbeatTick :: "'s store_ops \<Rightarrow> clock \<Rightarrow> 's scheduler \<Rightarrow> 's scheduler" where
  "Scheduler_heartbeatTick ops clk s =
     heartbeat_loop ops clk (filter (\<lambda>i. HasPrefix i ''local-'') (map fst (workersByID s))) s"

section \<open>Queries\<close>

definition Scheduler_Get :: "'s store_ops \<Rightarrow> string \<Rightarrow> 's scheduler \<Rightarrow> error + task" where
  "Scheduler_Get ops i s = Get ops i (store s)"

definition Scheduler_List :: "'s store_ops \<Rightarrow> 's scheduler \<Rightarrow> error + task list" where
  "Scheduler_List ops s = List ops (store s)"

record metrics =
  Submitted :: "64 word"
  mSucceeded :: "64 word"
  mFailed :: "64 word"
  mRetried :: "64 word"
  Canceled :: "64 word"
  LeaseExpired :: "64 word"

definition Scheduler_Metrics :: "'s scheduler \<Rightarrow> metrics" where
  "Scheduler_Metrics s = \<lparr>Submitted = submitted s, mSucceeded = succeeded s, mFailed = failed s,
     mRetried = retried s, Canceled = canceled s, LeaseExpired = leaseExpired s\<rparr>"

definition Scheduler_QueueLatencyHistogram :: "'s scheduler \<Rightarrow> 64 word list \<times> int \<times> 64 word" where
  "Scheduler_QueueLatencyHistogram s = (queueLatencyBuckets s, queueLatencySum s, queueLatencyCount s)"

end
