(* ===== verification/Scheduler_Lemmas.thy ===== *)
theory Scheduler_Lemmas
  imports Scheduler_Model
begin

text \<open>
  The lemmas the scheduler's properties share: what each record transformation keeps, the effect of a
  conditional write on the abstract view of a store (inside the store contract), readiness of
  dependencies, and the depth-first search for dependency cycles.
\<close>

section \<open>Record transformations\<close>

text \<open>The part of a task its submitter fixed. No operation of the scheduler changes it.\<close>

definition static :: "task \<Rightarrow> string \<times> string \<times> string \<times> int \<times> string slice \<times> char slice \<times> retry_policy
    \<times> duration \<times> duration \<times> gtime" where
  "static t = (ID t, IdempotencyKey t, Name t, Priority t, DependsOn t, Payload t, Retry t, Schedule t,
     Timeout t, CreatedAt t)"

lemma static_iff:
  "static t = static u \<longleftrightarrow> ID t = ID u \<and> IdempotencyKey t = IdempotencyKey u \<and> Name t = Name u
     \<and> Priority t = Priority u \<and> DependsOn t = DependsOn u \<and> Payload t = Payload u \<and> Retry t = Retry u
     \<and> Schedule t = Schedule u \<and> Timeout t = Timeout u \<and> CreatedAt t = CreatedAt u"
  by (simp add: static_def)

lemma static_records [simp]:
  "static (claimed_record wid now ttl token t) = static t"
  "static (failed_record reason now t) = static t"
  "static (canceled_record now t) = static t"
  "static (retry_record reason now t) = static t"
  "static (rollback_record t) = static t"
  "static (t\<lparr>LeaseUntil := u\<rparr>) = static t"
  "static (t\<lparr>Result := r\<rparr>) = static t"
  by (simp_all add: static_def claimed_record_def failed_record_def canceled_record_def retry_record_def
      rollback_record_def)

lemma static_finished [simp]: "static (fst (finished_record e now t)) = static t"
  by (simp add: static_def finished_record_def Let_def split: option.split)

lemma static_ID: "static t = static u \<Longrightarrow> ID t = ID u"
  by (simp add: static_iff)

lemma static_key: "static t = static u \<Longrightarrow> IdempotencyKey t = IdempotencyKey u"
  by (simp add: static_iff)

lemmas static_ID_simps [simp] = static_records [THEN static_ID] static_finished [THEN static_ID]
lemmas static_key_simps [simp] = static_records [THEN static_key] static_finished [THEN static_key]

lemma clone_eq_iff:
  "clone t = t \<longleftrightarrow> append_nil (Payload t) = Payload t \<and> append_nil (Result t) = Result t
     \<and> append_nil (DependsOn t) = DependsOn t"
  by (cases t) (auto simp: clone_def)

lemma clone_records [simp]:
  assumes "clone t = t"
  shows "clone (claimed_record wid now ttl token t) = claimed_record wid now ttl token t"
    and "clone (failed_record reason now t) = failed_record reason now t"
    and "clone (canceled_record now t) = canceled_record now t"
    and "clone (retry_record reason now t) = retry_record reason now t"
    and "clone (rollback_record t) = rollback_record t"
    and "clone (t\<lparr>LeaseUntil := u\<rparr>) = t\<lparr>LeaseUntil := u\<rparr>"
    and "clone (t\<lparr>Result := append_nil r\<rparr>) = t\<lparr>Result := append_nil r\<rparr>"
  using assms by (simp_all add: clone_eq_iff claimed_record_def failed_record_def canceled_record_def
      retry_record_def rollback_record_def)

lemma clone_finished [simp]:
  "clone t = t \<Longrightarrow> clone (fst (finished_record e now t)) = fst (finished_record e now t)"
  by (simp add: clone_eq_iff finished_record_def Let_def split: option.split)

lemma Validate_records [simp]:
  assumes "Validate t = None"
  shows "Validate (failed_record reason now t) = None"
    and "Validate (canceled_record now t) = None"
    and "Validate (t\<lparr>LeaseUntil := u\<rparr>) = None"
    and "Validate (t\<lparr>Result := r\<rparr>) = None"
    and "now \<noteq> 0 \<Longrightarrow> Validate (retry_record reason now t) = None"
    and "Attempts t \<noteq> 2 ^ 63 - 1 \<Longrightarrow> Validate (claimed_record wid now ttl token t) = None"
  using assms by (simp_all add: Validate_None_iff failed_record_def canceled_record_def retry_record_def
      claimed_record_def inc64_def)

lemma Validate_finished:
  "Validate t = None \<Longrightarrow> 0 < now \<Longrightarrow> RunCount t \<noteq> 2 ^ 63 - 1 \<Longrightarrow> Validate (fst (finished_record e now t)) = None"
  by (auto simp: Validate_None_iff finished_record_def Let_def inc64_def split: option.split)

lemma claimed_fields [simp]:
  "Status (claimed_record wid now ttl token t) = StatusRunning"
  "LeaseToken (claimed_record wid now ttl token t) = token"
  "WorkerID (claimed_record wid now ttl token t) = wid"
  "LeaseUntil (claimed_record wid now ttl token t) = Some (now + ttl)"
  "Attempts (claimed_record wid now ttl token t) = inc64 (Attempts t)"
  "RunAt (claimed_record wid now ttl token t) = RunAt t"
  by (simp_all add: claimed_record_def)

lemma record_status [simp]:
  "Status (failed_record reason now t) = StatusFailed"
  "Status (canceled_record now t) = StatusCanceled"
  "Status (retry_record reason now t) = StatusRetrying"
  "Status (rollback_record t) = StatusPending"
  by (simp_all add: failed_record_def canceled_record_def retry_record_def rollback_record_def)

lemma observe_frame [sched_simps, simp]:
  "store (Scheduler_observeQueueLatency t now s) = store s"
  "running (Scheduler_observeQueueLatency t now s) = running s"
  "queue (Scheduler_observeQueueLatency t now s) = queue s"
  "nworkers (Scheduler_observeQueueLatency t now s) = nworkers s"
  "workersByID (Scheduler_observeQueueLatency t now s) = workersByID s"
  "leaseTTL (Scheduler_observeQueueLatency t now s) = leaseTTL s"
  "handlers (Scheduler_observeQueueLatency t now s) = handlers s"
  by (simp_all add: Scheduler_observeQueueLatency_def Let_def)

lemma release_frame [sched_simps, simp]:
  "store (release i s) = store s" "queue (release i s) = queue s" "nworkers (release i s) = nworkers s"
  "workersByID (release i s) = workersByID s" "leaseTTL (release i s) = leaseTTL s"
  "handlers (release i s) = handlers s" "leaseExpired (release i s) = leaseExpired s"
  "canceled (release i s) = canceled s"
  "map_of (running (release i s)) = (map_of (running s))(i := None)"
  by (auto simp: release_def call_cancel_def gmap_simps fun_upd_idem split: option.split)

lemma count_metric_frame [sched_simps, simp]:
  "store (count_metric mt s) = store s" "running (count_metric mt s) = running s"
  "queue (count_metric mt s) = queue s"
  by (cases mt; simp add: count_metric_def)+

section \<open>Conditional writes inside the contract\<close>

definition cas_hit :: "string \<Rightarrow> status \<Rightarrow> string \<Rightarrow> task \<Rightarrow> (string \<rightharpoonup> task) \<Rightarrow> bool" where
  "cas_hit i st token t m \<longleftrightarrow>
     Validate t = None \<and> (\<exists>c. m i = Some c \<and> Status c = st \<and> LeaseToken c = token)"

lemma cas_spec_hit: "cas_spec i st token t m = (if cas_hit i st token t m then Some (m(i \<mapsto> clone t)) else None)"
  by (auto simp: cas_spec_def cas_hit_def split: option.split)

context task_store
begin

lemma update_if_state_eq: "update_if_state ops = UpdateIfState cu"
  by (simp add: update_if_state_def updater fun_eq_iff)

lemma update_if_lease_eq: "update_if_lease ops = UpdateIfLease cu"
  by (simp add: update_if_lease_def updater fun_eq_iff)

lemma write_look:
  assumes "inv m" and "ID t = i"
  shows "look (snd (update_if_state ops i st token t m))
           = (if cas_hit i st token t (look m) then (look m)(i \<mapsto> clone t) else look m)"
  using cas [OF assms, of st token] by (auto simp: update_if_state_eq meets_def cas_spec_hit split: if_splits)

lemma write_miss:
  "inv m \<Longrightarrow> ID t = i \<Longrightarrow> \<not> cas_hit i st token t (look m) \<Longrightarrow> fst (update_if_state ops i st token t m) \<noteq> None"
  using cas [of m t i st token] by (auto simp: update_if_state_eq meets_def cas_spec_hit)

lemma write_inv:
  "inv m \<Longrightarrow> ID t = i \<Longrightarrow> (\<And>c. look m i = Some c \<Longrightarrow> IdempotencyKey t = IdempotencyKey c) \<Longrightarrow>
   inv (snd (update_if_state ops i st token t m))"
  using inv_cas [of m t i st token] by (simp add: update_if_state_eq)

lemma lease_look:
  assumes "inv m" and "ID t = i"
  shows "look (snd (update_if_lease ops i token t m))
           = (if cas_hit i StatusRunning token t (look m) then (look m)(i \<mapsto> clone t) else look m)"
  using cas_lease [OF assms, of token] by (auto simp: update_if_lease_eq meets_def cas_spec_hit split: if_splits)

lemma lease_inv:
  "inv m \<Longrightarrow> ID t = i \<Longrightarrow> (\<And>c. look m i = Some c \<Longrightarrow> IdempotencyKey t = IdempotencyKey c) \<Longrightarrow>
   inv (snd (update_if_lease ops i token t m))"
  using inv_cas_lease [of m t i token] by (simp add: update_if_lease_eq)

lemma listed_mem: "inv m \<Longrightarrow> t \<in> set (listed ops m) \<longleftrightarrow> look m (ID t) = Some t"
  using list_total [of m] in_list_iff [of m] by (auto simp: listed_def)

lemma listed_distinct: "inv m \<Longrightarrow> distinct (map ID (listed ops m))"
  using list_total [of m] list_distinct [of m] by (auto simp: listed_def)

section \<open>Readiness\<close>

lemma ready_deps_iff:
  "inv m \<Longrightarrow> ready_deps ops m ds = (True, []) \<longleftrightarrow>
     (\<forall>d \<in> set ds. \<exists>u. look m d = Some u \<and> Status u = StatusSuccess)"
  by (induction ds) (auto simp: get split: option.splits)

lemma ready_deps_err:
  "inv m \<Longrightarrow> ready_deps ops m ds = (r, e) \<Longrightarrow> e \<noteq> [] \<Longrightarrow>
     \<exists>d \<in> set ds. look m d = None
       \<or> (\<exists>u. look m d = Some u \<and> (Status u = StatusFailed \<or> Status u = StatusCanceled))"
  by (induction ds) (auto simp: get split: option.splits if_splits)

lemma ready_deps_True: "ready_deps ops m ds = (True, e) \<Longrightarrow> e = []"
  by (induction ds) (auto split: sum.splits if_splits)

end

context reliable_store
begin

lemma write_ok:
  "inv m \<Longrightarrow> ID t = i \<Longrightarrow> fst (update_if_state ops i st token t m) = None \<longleftrightarrow> cas_hit i st token t (look m)"
  using cas_None_iff [of m t i st token] by (simp add: update_if_state_eq cas_spec_hit)

lemma lease_ok:
  "inv m \<Longrightarrow> ID t = i \<Longrightarrow> fst (update_if_lease ops i token t m) = None \<longleftrightarrow> cas_hit i StatusRunning token t (look m)"
  using cas_lease [of m t i token] cas_lease_ok [of m t i token]
  by (auto simp: update_if_lease_eq meets_def cas_spec_hit split: if_splits)

end

end
