(* ===== verification/Submission.thy ===== *)
theory Submission
  imports Scheduler_Lemmas
begin

text \<open>
  Submission: the dependency search of \<^verbatim>\<open>dependsOn\<close> decides reachability in the dependency graph and
  always returns, \<^verbatim>\<open>Submit\<close> keeps that graph acyclic, honours the idempotency key and the limit on tasks
  in flight, and stores what it was given.
\<close>

section \<open>The dependency graph\<close>

definition dep_edge :: "(string \<rightharpoonup> task) \<Rightarrow> (string \<times> string) set" where
  "dep_edge m = {(a, b). \<exists>t. m a = Some t \<and> b \<in> set (elems (DependsOn t))}"

lemma rtrancl_add_source:
  assumes "(x, i) \<in> (E \<union> {i} \<times> D)\<^sup>*"
  shows "(x, i) \<in> E\<^sup>*"
  using assms
proof (induction rule: converse_rtrancl_induct)
  case base
  then show ?case by simp
next
  case (step y z)
  then show ?case by (auto intro: converse_rtrancl_into_rtrancl)
qed

lemma acyclic_add_source:
  assumes "finite D" and "acyclic E" and "\<And>d. d \<in> D \<Longrightarrow> (d, i) \<notin> E\<^sup>*"
  shows "acyclic (E \<union> {i} \<times> D)"
  using assms(1,3)
proof (induction D)
  case empty
  then show ?case using assms(2) by simp
next
  case (insert d D)
  have "(d, i) \<notin> (E \<union> {i} \<times> D)\<^sup>*"
    using rtrancl_add_source [of d i E D] insert.prems [of d] by auto
  moreover have "E \<union> {i} \<times> insert d D = insert (i, d) (E \<union> {i} \<times> D)" by auto
  ultimately show ?case using insert by (simp add: acyclic_insert)
qed

text \<open>What a search that found nothing leaves in \<^verbatim>\<open>seen\<close>: everything it visited, without the target, and
  every successor of a newly visited node.\<close>

definition visited :: "(string \<times> string) set \<Rightarrow> string \<Rightarrow> string list \<Rightarrow> string list \<Rightarrow> bool" where
  "visited E target seen seen' \<longleftrightarrow> set seen \<subseteq> set seen'
     \<and> (\<forall>x \<in> set seen' - set seen. x \<noteq> target \<and> (\<forall>y. (x, y) \<in> E \<longrightarrow> y \<in> set seen'))"

lemma visited_refl [simp]: "visited E target seen seen"
  by (simp add: visited_def)

lemma visited_trans: "visited E target a b \<Longrightarrow> visited E target b c \<Longrightarrow> visited E target a c"
  unfolding visited_def by blast

lemma visited_cons:
  "visited E target (i # seen) seen' \<Longrightarrow> i \<noteq> target \<Longrightarrow> (\<And>y. (i, y) \<in> E \<Longrightarrow> y \<in> set seen') \<Longrightarrow>
   visited E target seen seen'"
  unfolding visited_def by auto

lemma visited_closed:
  assumes "visited E target [] seen'" and "i \<in> set seen'"
  shows "(i, target) \<notin> E\<^sup>*"
proof
  assume "(i, target) \<in> E\<^sup>*"
  then have "target \<in> set seen'"
    using assms by (induction rule: rtrancl_induct) (auto simp: visited_def)
  then show False using assms(1) by (auto simp: visited_def)
qed

definition search_post ::
  "(string \<times> string) set \<Rightarrow> string set \<Rightarrow> string \<Rightarrow> string list \<Rightarrow> (bool \<times> string list) option \<Rightarrow> bool" where
  "search_post E from target seen r \<longleftrightarrow>
     (case r of
        None \<Rightarrow> False
      | Some (True, _) \<Rightarrow> \<exists>d \<in> from. (d, target) \<in> E\<^sup>*
      | Some (False, seen') \<Rightarrow> from \<subseteq> set seen' \<and> visited E target seen seen')"

lemma unseen_mono:
  assumes "finite A" and "visited E target seen seen'" and "card (A - set seen) < n"
  shows "card (A - set seen') < n"
proof -
  have "A - set seen' \<subseteq> A - set seen" using assms(2) by (auto simp: visited_def)
  then have "card (A - set seen') \<le> card (A - set seen)" using assms(1) by (intro card_mono) auto
  with assms(3) show ?thesis by simp
qed

context task_store
begin

lemma search_loop:
  assumes "inv m"
    and P: "\<And>d seen. card (dom (look m) - set seen) < n \<Longrightarrow>
          search_post (dep_edge (look m)) {d} target seen (dependsOn n ops m d target seen)"
    and "card (dom (look m) - set seen) < n"
  shows "search_post (dep_edge (look m)) (set ds) target seen (dependsOn_loop n ops m ds target seen)"
  using assms(3)
proof (induction ds arbitrary: seen)
  case Nil
  then show ?case by (simp add: search_post_def)
next
  case (Cons d ds)
  from P [OF Cons.prems, of d] obtain b seen1 where
    r: "dependsOn n ops m d target seen = Some (b, seen1)"
    and post: "search_post (dep_edge (look m)) {d} target seen (Some (b, seen1))"
    by (cases "dependsOn n ops m d target seen") (auto simp: search_post_def)
  show ?case
  proof (cases b)
    case True
    with r post show ?thesis by (auto simp: search_post_def)
  next
    case False
    with post have v: "d \<in> set seen1" "visited (dep_edge (look m)) target seen seen1"
      by (auto simp: search_post_def)
    note IH = Cons.IH [OF unseen_mono [OF finite_look [OF assms(1)] v(2) Cons.prems]]
    have sub: "d \<in> set c" if "visited (dep_edge (look m)) target seen1 c" for c
      using that v(1) by (auto simp: visited_def)
    from IH False r v show ?thesis
      by (auto simp: search_post_def sub intro: visited_trans split: option.splits bool.splits)
  qed
qed

lemma search_total:
  assumes "inv m" and "card (dom (look m) - set seen) < n"
  shows "search_post (dep_edge (look m)) {i} target seen (dependsOn n ops m i target seen)"
  using assms(2)
proof (induction n arbitrary: i seen)
  case 0
  then show ?case by simp
next
  case (Suc n)
  let ?E = "dep_edge (look m)"
  show ?case
  proof (cases "i = target \<or> i \<in> set seen \<or> look m i = None")
    case True
    then show ?thesis
      using assms(1) by (auto simp: search_post_def get visited_def dep_edge_def)
  next
    case False
    then obtain t where t: "look m i = Some t" and ne: "i \<noteq> target" "i \<notin> set seen" by auto
    have "dom (look m) - set (i # seen) \<subset> dom (look m) - set seen"
      using t ne by auto
    then have "card (dom (look m) - set (i # seen)) < n"
      using Suc.prems finite_look [OF assms(1)] psubset_card_mono
      by (metis finite_Diff less_Suc_eq_le order_less_le_trans)
    from search_loop [OF assms(1) Suc.IH this, of "elems (DependsOn t)"]
    have post: "search_post ?E (set (elems (DependsOn t))) target (i # seen)
        (dependsOn (Suc n) ops m i target seen)"
      using ne t assms(1) by (simp add: get)
    have succ: "(i, y) \<in> ?E \<longleftrightarrow> y \<in> set (elems (DependsOn t))" for y
      using t by (auto simp: dep_edge_def)
    from post obtain b seen1 where r: "dependsOn (Suc n) ops m i target seen = Some (b, seen1)"
      by (auto simp: search_post_def simp del: dependsOn.simps split: option.splits)
    note post = post [unfolded r]
    show ?thesis
      unfolding r
    proof (cases b)
      case True
      with post obtain d where "(i, d) \<in> ?E" "(d, target) \<in> ?E\<^sup>*"
        by (auto simp: search_post_def succ)
      then have "(i, target) \<in> ?E\<^sup>*" by (rule converse_rtrancl_into_rtrancl)
      with True show "search_post ?E {i} target seen (Some (b, seen1))" by (simp add: search_post_def)
    next
      case False
      with post have v: "visited ?E target (i # seen) seen1" "set (elems (DependsOn t)) \<subseteq> set seen1"
        by (auto simp: search_post_def)
      have "visited ?E target seen seen1"
        by (rule visited_cons [OF v(1) ne(1)]) (use succ v(2) in auto)
      moreover have "i \<in> set seen1" using v(1) by (simp add: visited_def)
      ultimately show "search_post ?E {i} target seen (Some (b, seen1))"
        using False by (simp add: search_post_def)
    qed
  qed
qed

lemma dependsOn_decides:
  assumes "inv m"
  shows "\<exists>b seen. dependsOn (Suc (Suc (records ops m))) ops m i target [] = Some (b, seen)
     \<and> (b \<longleftrightarrow> (i, target) \<in> (dep_edge (look m))\<^sup>*)"
proof -
  have "card (dom (look m) - set []) < Suc (Suc (records ops m))"
    using bound [OF assms] by simp
  note post = search_total [OF assms this, of i target]
  then show ?thesis
    by (auto simp: search_post_def dest: visited_closed split: option.splits prod.splits bool.splits)
qed

lemma check_deps_None:
  assumes "inv m" and "check_deps ops m i deps = None" and "dep \<in> set deps"
  shows "dep \<noteq> i \<and> look m dep \<noteq> None \<and> (dep, i) \<notin> (dep_edge (look m))\<^sup>*"
  using assms(2,3)
proof (induction deps)
  case (Cons d deps)
  obtain b seen where "dependsOn (Suc (Suc (records ops m))) ops m d i [] = Some (b, seen)"
      "b \<longleftrightarrow> (d, i) \<in> (dep_edge (look m))\<^sup>*"
    using dependsOn_decides [OF assms(1)] by blast
  with Cons assms(1) show ?case
    by (auto simp: get split: option.splits if_splits bool.splits)
qed simp

lemma check_deps_returns:
  assumes "inv m"
  shows "check_deps ops m i deps \<noteq> Some Diverges"
proof (induction deps)
  case (Cons d deps)
  obtain b seen where "dependsOn (Suc (Suc (records ops m))) ops m d i [] = Some (b, seen)"
    using dependsOn_decides [OF assms] by blast
  with Cons show ?case by (cases b) (auto split: sum.splits)
qed simp

lemma acyclic_create:
  assumes "inv m" and "acyclic (dep_edge (look m))" and "look m (ID t) = None"
    and "check_deps ops m (ID t) (elems (DependsOn t)) = None"
  shows "acyclic (dep_edge ((look m)(ID t \<mapsto> clone t)))"
proof -
  have "dep_edge ((look m)(ID t \<mapsto> clone t)) = dep_edge (look m) \<union> {ID t} \<times> set (elems (DependsOn t))"
    using assms(3) by (auto simp: dep_edge_def split: if_splits)
  then show ?thesis
    using acyclic_add_source [of "set (elems (DependsOn t))" "dep_edge (look m)" "ID t"]
      check_deps_None [OF assms(1,4)] assms(2) by simp
qed

end

section \<open>Submit\<close>

lemma submit_defaults_fields [simp]:
  "IdempotencyKey (fst (submit_defaults clk g t)) = IdempotencyKey t"
  "DependsOn (fst (submit_defaults clk g t)) = DependsOn t"
  "Name (fst (submit_defaults clk g t)) = Name t"
  "Payload (fst (submit_defaults clk g t)) = Payload t"
  "Priority (fst (submit_defaults clk g t)) = Priority t"
  by (simp_all add: submit_defaults_def NewID_def Let_def)

lemma finite_in_flight: "finite (dom m) \<Longrightarrow> finite (in_flight_ids m)"
  by (rule finite_subset [of _ "dom m"]) (auto simp: in_flight_ids_def)

lemma in_flight_put: "in_flight_ids (m(i \<mapsto> t)) \<subseteq> insert i (in_flight_ids m)"
  by (auto simp: in_flight_ids_def split: if_splits)

context reliable_store
begin

lemma find_key:
  assumes "inv (store s)" and "key \<noteq> []"
  shows "case Scheduler_FindByIdempotencyKey ops key s of
           Inr t \<Rightarrow> (\<exists>i. look (store s) i = Some t) \<and> IdempotencyKey t = key
         | Inl e \<Rightarrow> e = ErrNotFound \<and> key_free (look (store s)) key"
proof -
  obtain f where "asIdempotencyFinder ops = Some f"
    and "\<And>s key. inv s \<Longrightarrow> key \<noteq> [] \<Longrightarrow> (case f key s of
           Inr t \<Rightarrow> (\<exists>i. look s i = Some t) \<and> IdempotencyKey t = key
         | Inl e \<Rightarrow> e = ErrNotFound \<and> key_free (look s) key)"
    using finder by blast
  with assms show ?thesis by (simp add: Scheduler_FindByIdempotencyKey_def)
qed

lemma in_flight_count_eq:
  "inv (store s) \<Longrightarrow> Scheduler_inFlightCount ops s = Inr (int (card (in_flight_ids (look (store s)))))"
  using counter by (auto simp: Scheduler_inFlightCount_def)

lemma backpressure_iff:
  "inv (store s) \<Longrightarrow> backpressure ops s =
     (if 0 < maxPending s \<and> maxPending s \<le> int (card (in_flight_ids (look (store s))))
      then Some ErrBackpressure else None)"
  by (simp add: backpressure_def in_flight_count_eq)

lemma submit_ok:
  assumes "inv (store s)" and "Scheduler_Submit ops clk t s = (None, s')"
    and d: "submit_defaults clk (ids s) t = (t', g)"
  shows "look (store s') = (look (store s))(ID t' \<mapsto> clone t')"
    and "inv (store s')"
    and "look (store s) (ID t') = None" and "Validate t' = None"
    and "key_free (look (store s)) (IdempotencyKey t)"
    and "check_deps ops (store s) (ID t') (elems (DependsOn t')) = None"
    and "0 < maxPending s \<Longrightarrow> int (card (in_flight_ids (look (store s)))) < maxPending s"
    and "submitted s' = submitted s + 1" and "maxPending s' = maxPending s"
proof -
  obtain err m where c: "Create ops t' (store s) = (err, m)" by (cases "Create ops t' (store s)")
  have all: "err = None \<and> s' = s\<lparr>ids := g, store := m, submitted := submitted s + 1\<rparr>
      \<and> check_deps ops (store s) (ID t') (elems (DependsOn t')) = None \<and> backpressure ops s = None"
    using assms(2) unfolding Scheduler_Submit_def
    by (auto simp: d c Let_def split: sum.splits option.splits if_splits)
  then have spec: "create_spec t' (look (store s)) \<noteq> None"
    using create_None_iff [OF assms(1), of t'] c by simp
  have key: "IdempotencyKey t' = IdempotencyKey t" using d submit_defaults_fields(1) [of clk "ids s" t] by simp
  show "look (store s') = (look (store s))(ID t' \<mapsto> clone t')"
    using create [OF assms(1), of t'] spec all c by (auto simp: meets_def create_spec_def split: if_splits)
  show "inv (store s')" using inv_create [OF assms(1), of t'] c all by simp
  show "look (store s) (ID t') = None" "Validate t' = None" "key_free (look (store s)) (IdempotencyKey t)"
    using spec key by (auto simp: create_spec_def split: if_splits)
  show "check_deps ops (store s) (ID t') (elems (DependsOn t')) = None"
    and "submitted s' = submitted s + 1" and "maxPending s' = maxPending s"
    using all by auto
  show "0 < maxPending s \<Longrightarrow> int (card (in_flight_ids (look (store s)))) < maxPending s"
    using all backpressure_iff [OF assms(1)] by (auto split: if_splits)
qed

lemma submit_err:
  assumes "inv (store s)" and "Scheduler_Submit ops clk t s = (Some e, s')"
  shows "look (store s') = look (store s)" and "inv (store s')" and "submitted s' = submitted s"
    and "maxPending s' = maxPending s"
proof -
  obtain t' g where d: "submit_defaults clk (ids s) t = (t', g)" by fastforce
  obtain err m where c: "Create ops t' (store s) = (err, m)" by (cases "Create ops t' (store s)")
  have "look m = look (store s)" if "err \<noteq> None"
    using create [OF assms(1), of t'] create_None_iff [OF assms(1), of t'] c that
    by (auto simp: meets_def split: option.splits)
  moreover have "inv m" using inv_create [OF assms(1), of t'] c by simp
  ultimately have all: "look (store s') = look (store s) \<and> inv (store s') \<and> submitted s' = submitted s
      \<and> maxPending s' = maxPending s"
    using assms unfolding Scheduler_Submit_def
    by (auto simp: d c Let_def split: sum.splits option.splits if_splits)
  then show "look (store s') = look (store s)" "inv (store s')" "submitted s' = submitted s"
    "maxPending s' = maxPending s" by auto
qed

lemma submit_acyclic:
  assumes "inv (store s)" and "acyclic (dep_edge (look (store s)))"
  shows "acyclic (dep_edge (look (store (snd (Scheduler_Submit ops clk t s)))))"
proof (cases "Scheduler_Submit ops clk t s")
  case (Pair err s')
  obtain t' g where d: "submit_defaults clk (ids s) t = (t', g)" by fastforce
  show ?thesis
  proof (cases err)
    case None
    note ok = submit_ok [OF assms(1) Pair [unfolded None] d]
    from acyclic_create [OF assms ok(3,6)] show ?thesis using Pair ok(1) by simp
  next
    case (Some e)
    then show ?thesis using submit_err(1) [OF assms(1)] Pair assms(2) by simp
  qed
qed

lemma submit_in_flight:
  assumes "inv (store s)" and "0 < maxPending s"
    and "Scheduler_Submit ops clk t s = (err, s')"
  shows "int (card (in_flight_ids (look (store s'))))
           \<le> max (int (card (in_flight_ids (look (store s))))) (maxPending s)"
proof (cases err)
  case None
  obtain t' g where d: "submit_defaults clk (ids s) t = (t', g)" by fastforce
  note ok = submit_ok [OF assms(1) assms(3) [unfolded None] d]
  have "card (in_flight_ids (look (store s'))) \<le> card (insert (ID t') (in_flight_ids (look (store s))))"
    unfolding ok(1) by (intro card_mono in_flight_put) (simp add: finite_in_flight finite_look assms(1))
  also have "\<dots> \<le> Suc (card (in_flight_ids (look (store s))))" by (rule card_insert_le_m1) auto
  finally show ?thesis using ok(7) [OF assms(2)] by linarith
next
  case (Some e)
  then show ?thesis using submit_err(1) [OF assms(1)] assms(3) by simp
qed

lemma submit_twice:
  assumes "inv (store s)" and "Scheduler_Submit ops clk t s = (None, s1)"
    and "IdempotencyKey t \<noteq> []" and "IdempotencyKey u = IdempotencyKey t"
    and d: "submit_defaults clk (ids s) t = (t', g)"
  shows "Scheduler_FindByIdempotencyKey ops (IdempotencyKey u) s1 = Inr (clone t')"
    and "Scheduler_Submit ops clk' u s1
           = (Some (ErrWrap (''duplicate task '' @ ID t') ErrDuplicateIdempotencyKey), s1)"
proof -
  note ok = submit_ok [OF assms(1,2) d]
  have key: "IdempotencyKey t' = IdempotencyKey t" using d submit_defaults_fields(1) [of clk "ids s" t] by simp
  have ne: "IdempotencyKey u \<noteq> []" using assms(3,4) by simp
  show f: "Scheduler_FindByIdempotencyKey ops (IdempotencyKey u) s1 = Inr (clone t')"
  proof (cases "Scheduler_FindByIdempotencyKey ops (IdempotencyKey u) s1")
    case (Inl e)
    with find_key [OF ok(2) ne] have "key_free (look (store s1)) (IdempotencyKey u)" by simp
    moreover have "look (store s1) (ID t') = Some (clone t')" using ok(1) by simp
    ultimately show ?thesis using key assms(4) ne by (auto dest!: key_freeD)
  next
    case (Inr v)
    with find_key [OF ok(2) ne] obtain i where "look (store s1) i = Some v" "IdempotencyKey v = IdempotencyKey u"
      by auto
    moreover have "look (store s1) (ID t') = Some (clone t')" using ok(1) by simp
    ultimately have "i = ID t'" using look_key [OF ok(2), of i v "ID t'" "clone t'"] key assms(4) ne by auto
    with Inr \<open>look (store s1) i = Some v\<close> \<open>look (store s1) (ID t') = Some (clone t')\<close> show ?thesis by simp
  qed
  then show "Scheduler_Submit ops clk' u s1
           = (Some (ErrWrap (''duplicate task '' @ ID t') ErrDuplicateIdempotencyKey), s1)"
    using ne by (simp add: Scheduler_Submit_def)
qed

end

section \<open>Properties\<close>

text \<open>A small store for the witnesses: task \<open>a\<close> succeeded, task \<open>b\<close> waits for it.\<close>

definition job :: "string \<Rightarrow> string list \<Rightarrow> status \<Rightarrow> task" where
  "job i deps st = zero_task\<lparr>ID := i, Name := ''echo'', Status := st, RunAt := 5, CreatedAt := 5,
     DependsOn := append_nil (Some deps), Retry := \<lparr>MaxAttempts = 2, Backoff = 0\<rparr>\<rparr>"

definition demo_store :: memory_store where
  "demo_store = \<lparr>mtasks = [(''a'', job ''a'' [] StatusSuccess), (''b'', job ''b'' [''a''] StatusPending)],
     mworkers = [(''w'', \<lparr>wID = ''w'', LastHeartbeat = 5, wLeaseUntil = 100\<rparr>)]\<rparr>"

definition demo :: "memory_store scheduler" where
  "demo = Scheduler_New demo_store 1 \<lparr>processTag = ''0a0b0c0d'', idCounter = 0\<rparr>"

lemma job_fields [simp]:
  "ID (job i ds st) = i" "Status (job i ds st) = st" "elems (DependsOn (job i ds st)) = ds"
  "IdempotencyKey (job i ds st) = []" "RunAt (job i ds st) = 5" "Attempts (job i ds st) = 0"
  "Priority (job i ds st) = 0" "Name (job i ds st) = ''echo''" "LeaseToken (job i ds st) = []"
  "Retry (job i ds st) = \<lparr>MaxAttempts = 2, Backoff = 0\<rparr>" "RunCount (job i ds st) = 0"
  "CreatedAt (job i ds st) = 5" "Schedule (job i ds st) = 0" "LeaseUntil (job i ds st) = None"
  "clone (job i ds st) = job i ds st"
  by (simp_all add: job_def zero_task_def clone_def)

lemma Validate_job [simp]: "i \<noteq> [] \<Longrightarrow> Validate (job i ds st) = None"
  by (simp add: Validate_def job_def zero_task_def)

lemma demo_inv [simp]: "mem_inv (store demo)"
proof -
  have "\<And>i t. mem_look demo_store i = Some t \<Longrightarrow> t = job ''a'' [] StatusSuccess \<and> i = ''a''
      \<or> t = job ''b'' [''a''] StatusPending \<and> i = ''b''"
    by (auto simp: demo_store_def mem_look_def split: if_splits)
  then show ?thesis
    by (auto simp: demo_def Scheduler_New_def mem_inv_def wf_view_def demo_store_def mem_look_def
        Let_def split: if_splits)
qed

text \<open>C14: the dependency search returns, and it answers exactly whether the target is reachable from the
  start along recorded dependencies, for every store content, cycles included.\<close>

theorem dependsOn_correct:
  assumes "mem_inv m"
  shows "\<exists>b seen. dependsOn (Suc (Suc (length (mtasks m)))) memory_ops m i target [] = Some (b, seen)
     \<and> (b \<longleftrightarrow> (i, target) \<in> (dep_edge (mem_look m))\<^sup>*)"
  using mem.dependsOn_decides [OF assms] by simp

theorem dependsOn_correct_witness:
  "\<exists>b seen. dependsOn 4 memory_ops demo_store ''b'' ''a'' [] = Some (b, seen)
     \<and> (b \<longleftrightarrow> (''b'', ''a'') \<in> (dep_edge (mem_look demo_store))\<^sup>*)"
proof -
  have "mem_inv demo_store" using demo_inv by (simp add: demo_def Scheduler_New_def Let_def)
  moreover have "Suc (Suc (length (mtasks demo_store))) = 4" by (simp add: demo_store_def)
  ultimately show ?thesis using dependsOn_correct [of demo_store "''b''" "''a''"] by metis
qed

text \<open>C8: submission keeps the dependency graph free of cycles, also when a purged id is submitted
  again and tasks that depend on it are still stored.\<close>

theorem submit_keeps_acyclic:
  assumes "mem_inv (store s)" and "acyclic (dep_edge (mem_look (store s)))"
  shows "acyclic (dep_edge (mem_look (store (snd (Scheduler_Submit memory_ops clk t s)))))"
  by (rule mem.submit_acyclic [OF assms])

theorem submit_keeps_acyclic_witness:
  "acyclic (dep_edge (mem_look (store (snd
     (Scheduler_Submit memory_ops (\<lambda>_. 7) (job ''c'' [''b'', ''a''] StatusPending) demo)))))"
proof (rule submit_keeps_acyclic)
  have "dep_edge (mem_look (store demo)) = {(''b'', ''a'')}"
    by (auto simp: dep_edge_def demo_def Scheduler_New_def demo_store_def mem_look_def Let_def split: if_splits)
  then show "acyclic (dep_edge (mem_look (store demo)))" by (simp add: acyclic_insert) (simp add: acyclic_def)
qed simp

text \<open>Submission applies backpressure: it never raises the number of pending, retrying and running
  tasks above the limit.\<close>

theorem submit_respects_limit:
  assumes "mem_inv (store s)" and "0 < maxPending s"
    and "Scheduler_Submit memory_ops clk t s = (err, s')"
  shows "int (card (in_flight_ids (mem_look (store s'))))
           \<le> max (int (card (in_flight_ids (mem_look (store s))))) (maxPending s)"
  by (rule mem.submit_in_flight [OF assms])

theorem submit_respects_limit_witness:
  "int (card (in_flight_ids (mem_look (store (snd
     (Scheduler_Submit memory_ops (\<lambda>_. 7) (job ''c'' [] StatusPending) demo))))))
     \<le> max (int (card (in_flight_ids (mem_look (store demo))))) 100"
proof -
  have "maxPending demo = 100" by (simp add: demo_def Scheduler_New_def Let_def)
  then show ?thesis
    using submit_respects_limit [of demo, OF demo_inv _ prod.collapse [symmetric]] by simp
qed

text \<open>Submission with an idempotency key is idempotent. Once a task was accepted under a key, a second
  submission with that key is refused with the duplicate-key error and changes nothing, and looking the
  key up returns the record that the first submission stored.\<close>

theorem submit_idempotent:
  assumes "mem_inv (store s)" and "Scheduler_Submit memory_ops clk t s = (None, s1)"
    and "IdempotencyKey t \<noteq> []" and "IdempotencyKey u = IdempotencyKey t"
  shows "\<exists>e. Scheduler_Submit memory_ops clk' u s1 = (Some e, s1) \<and> errors_Is e ErrDuplicateIdempotencyKey
     \<and> Scheduler_FindByIdempotencyKey memory_ops (IdempotencyKey u) s1
         = Inr (clone (fst (submit_defaults clk (ids s) t)))"
proof -
  obtain t' g where d: "submit_defaults clk (ids s) t = (t', g)" by fastforce
  from mem.submit_twice [OF assms d] show ?thesis by (auto simp: d)
qed

theorem submit_idempotent_witness:
  "\<exists>s1 e. Scheduler_Submit memory_ops (\<lambda>_. 7) (job ''c'' [] StatusPending\<lparr>IdempotencyKey := ''k''\<rparr>) demo = (None, s1)
     \<and> Scheduler_Submit memory_ops (\<lambda>_. 9) (job ''d'' [] StatusPending\<lparr>IdempotencyKey := ''k''\<rparr>) s1 = (Some e, s1)
     \<and> errors_Is e ErrDuplicateIdempotencyKey"
proof -
  let ?t = "job ''c'' [] StatusPending\<lparr>IdempotencyKey := ''k''\<rparr>"
  let ?u = "job ''d'' [] StatusPending\<lparr>IdempotencyKey := ''k''\<rparr>"
  have "fst (Scheduler_Submit memory_ops (\<lambda>_. 7) ?t demo) = None" by code_simp
  then obtain s1 where s1: "Scheduler_Submit memory_ops (\<lambda>_. 7) ?t demo = (None, s1)"
    by (metis prod.collapse)
  from submit_idempotent [OF demo_inv s1, of ?u "\<lambda>_. 9"] s1 show ?thesis by auto
qed

end
