(* ===== verification/Claiming.thy ===== *)
theory Claiming
  imports Submission
begin

text \<open>
  Claiming: a claim hands out the best runnable task (highest priority, earliest time, smallest id),
  leased to the worker that asked; it fails only tasks that cannot run any more; and it reports that
  there is nothing to do exactly when no runnable task is left.
\<close>

section \<open>Runnable tasks\<close>

definition deps_ok :: "(string \<rightharpoonup> task) \<Rightarrow> task \<Rightarrow> bool" where
  "deps_ok m t \<longleftrightarrow> (\<forall>d \<in> set (elems (DependsOn t)). \<exists>u. m d = Some u \<and> Status u = StatusSuccess)"

text \<open>A due task that can be handed out: its dependencies succeeded, no local reservation holds it,
  and its attempt counter can still be raised.\<close>

definition claimable :: "(string \<rightharpoonup> task) \<Rightarrow> (string, nat option) gmap \<Rightarrow> gtime \<Rightarrow> task \<Rightarrow> bool" where
  "claimable m r now t \<longleftrightarrow> is_due now t \<and> deps_ok m t \<and> map_of r (ID t) = None \<and> Attempts t \<noteq> 2 ^ 63 - 1"

text \<open>\<open>m\<close> differs from \<open>m0\<close> only in due tasks that were failed because of a dependency.\<close>

definition failed_only :: "gtime \<Rightarrow> (string \<rightharpoonup> task) \<Rightarrow> (string \<rightharpoonup> task) \<Rightarrow> bool" where
  "failed_only now m0 m \<longleftrightarrow> (\<forall>i. m i = m0 i \<or>
     (\<exists>t reason x. m0 i = Some t \<and> is_due now t \<and> \<not> deps_ok m0 t \<and> reason \<noteq> []
        \<and> m i = Some (failed_record reason x t)))"

lemma failed_only_refl [simp]: "failed_only now m m"
  by (simp add: failed_only_def)

lemma not_due_success: "is_due now t \<Longrightarrow> Status t \<noteq> StatusSuccess"
  by (auto simp: is_due_def)

lemma failed_only_deps:
  assumes "failed_only now m0 m"
  shows "deps_ok m t \<longleftrightarrow> deps_ok m0 t"
proof -
  have "(\<exists>u. m d = Some u \<and> Status u = StatusSuccess) \<longleftrightarrow> (\<exists>u. m0 d = Some u \<and> Status u = StatusSuccess)" for d
    using assms [unfolded failed_only_def, THEN spec, of d] by (metis not_due_success option.inject record_status(1) status_distinct(18))
  then show ?thesis by (simp add: deps_ok_def)
qed

lemma failed_only_put:
  assumes "failed_only now m0 m" and "m i = Some t" and "m0 i = Some t"
    and "is_due now t" and "\<not> deps_ok m0 t" and "reason \<noteq> []"
  shows "failed_only now m0 (m(i \<mapsto> failed_record reason x t))"
  using assms unfolding failed_only_def by auto

section \<open>The candidate loop\<close>

text \<open>What holds of the listing while the loop runs: the records it has not looked at are stored as
  listed, and those it has passed over cannot be claimed.\<close>

definition loop_inv ::
  "(string \<rightharpoonup> task) \<Rightarrow> (string, nat option) gmap \<Rightarrow> gtime \<Rightarrow> task list \<Rightarrow> bool list \<Rightarrow> (string \<rightharpoonup> task) \<Rightarrow> bool" where
  "loop_inv m0 r now items skip m \<longleftrightarrow> length skip = length items \<and> distinct (map ID items)
     \<and> (\<forall>i < length items. m0 (ID (items ! i)) = Some (items ! i))
     \<and> failed_only now m0 m
     \<and> (\<forall>i < length items. \<not> skip ! i \<longrightarrow> m (ID (items ! i)) = Some (items ! i))
     \<and> (\<forall>i < length items. skip ! i \<longrightarrow> \<not> claimable m0 r now (items ! i))"

lemma loop_inv_skip:
  assumes "loop_inv m0 r now items skip m" and "i < length items"
    and "\<not> claimable m0 r now (items ! i)"
  shows "loop_inv m0 r now items (skip[i := True]) m"
  using assms unfolding loop_inv_def by (auto simp: nth_list_update)

lemma loop_inv_fail:
  assumes inv: "loop_inv m0 r now items skip m" and i: "i < length items" "\<not> skip ! i" "is_due now (items ! i)"
    and "\<not> deps_ok m0 (items ! i)" and "reason \<noteq> []"
  shows "loop_inv m0 r now items (skip[i := True]) (m(ID (items ! i) \<mapsto> failed_record reason x (items ! i)))"
proof -
  have "ID (items ! j) \<noteq> ID (items ! i)" if "j < length items" "j \<noteq> i" for j
    using inv i(1) that by (auto simp: loop_inv_def distinct_conv_nth)
  then show ?thesis
    using assms unfolding loop_inv_def
    by (auto simp: nth_list_update failed_only_put claimable_def)
qed

lemma open_at_shrinks:
  assumes "i \<in> open_at items now skip" and "length skip = length items"
  shows "card (open_at items now (skip[i := True])) < card (open_at items now skip)"
proof (rule psubset_card_mono)
  show "finite (open_at items now skip)" by (rule finite_subset [of _ "{..<length items}"]) (auto simp: open_at_def)
  show "open_at items now (skip[i := True]) \<subset> open_at items now skip"
    using assms by (auto simp: open_at_def nth_list_update)
qed

text \<open>The result of a claim, against the view \<open>m0\<close> and the reservations \<open>r\<close> it started from.\<close>

definition claim_post ::
  "(string \<rightharpoonup> task) \<Rightarrow> (string, nat option) gmap \<Rightarrow> gtime \<Rightarrow> string \<Rightarrow> duration \<Rightarrow> error + task
   \<Rightarrow> (string \<rightharpoonup> task) \<Rightarrow> (string, nat option) gmap \<Rightarrow> bool" where
  "claim_post m0 r now wid ttl res m r' \<longleftrightarrow>
     (case res of
        Inl e \<Rightarrow> e = ErrNoTask \<and> failed_only now m0 m \<and> map_of r' = map_of r
          \<and> (\<forall>i t. m0 i = Some t \<longrightarrow> \<not> claimable m0 r now t)
      | Inr t \<Rightarrow> \<exists>t0 x. m0 (ID t) = Some t0 \<and> claimable m0 r now t0 \<and> now \<le> x
          \<and> t = claimed_record wid x ttl (lease_token x (ID t0)) t0
          \<and> m (ID t) = Some t \<and> failed_only now m0 (m(ID t \<mapsto> t0))
          \<and> map_of r' = (map_of r)(ID t \<mapsto> None)
          \<and> (\<forall>i u. m0 i = Some u \<longrightarrow> claimable m0 r now u \<longrightarrow> \<not> dueBefore u t0))"

context local_store
begin

lemma ready_iff:
  "inv m \<Longrightarrow> Scheduler_dependenciesReady ops t m = (True, []) \<longleftrightarrow> deps_ok (look m) t"
  by (simp add: Scheduler_dependenciesReady_def deps_ok_def ready_deps_iff)

lemma ready_cases:
  assumes "inv m"
  obtains "Scheduler_dependenciesReady ops t m = (True, [])" "deps_ok (look m) t"
  | e where "Scheduler_dependenciesReady ops t m = (False, e)" "\<not> deps_ok (look m) t"
proof (cases "Scheduler_dependenciesReady ops t m")
  case (Pair r e)
  show thesis
  proof (cases r)
    case True
    with Pair have "e = []" by (auto simp: Scheduler_dependenciesReady_def dest: ready_deps_True)
    with Pair True that(1) ready_iff [OF assms, of t] show thesis by auto
  next
    case False
    with Pair that(2) ready_iff [OF assms, of t] show thesis by auto
  qed
qed

lemma fail_look:
  assumes "inv m" and "look m (ID t) = Some t"
  shows "look (Scheduler_failUnreadyTask ops t reason now m) = (look m)(ID t \<mapsto> failed_record reason now t)"
    and "inv (Scheduler_failUnreadyTask ops t reason now m)"
  using assms look_valid [OF assms] look_clone [OF assms]
  by (simp_all add: Scheduler_failUnreadyTask_def write_look cas_hit_def) (rule write_inv; simp)

lemma commit_look:
  assumes "inv m" and "look m i = Some t" and "is_due x t" and "Attempts t \<noteq> 2 ^ 63 - 1"
    and "Scheduler_commitClaim ops wid i ttl x m = (res, m')"
  shows "res = Inr (claimed_record wid x ttl (lease_token x i) t)"
    and "look m' = (look m)(i \<mapsto> claimed_record wid x ttl (lease_token x i) t)" and "inv m'"
proof -
  let ?new = "claimed_record wid x ttl (lease_token x i) t"
  note t = look_id [OF assms(1,2)] look_valid [OF assms(1,2)] look_clone [OF assms(1,2)]
  have hit: "cas_hit i (Status t) (LeaseToken t) ?new (look m)"
    using t assms by (simp add: cas_hit_def)
  have id: "ID ?new = i" using t by simp
  obtain err where w: "update_if_state ops i (Status t) (LeaseToken t) ?new m = (err, m') \<and> res = (if err = None then Inr ?new else Inl ErrClaimLost)"
    using assms(3,5) by (auto simp: Scheduler_commitClaim_def get_iff [OF assms(1), THEN iffD2, OF assms(2)] is_due_def Let_def
        split: prod.splits if_splits option.splits)
  with write_ok [OF assms(1) id, of "Status t" "LeaseToken t"] hit show "res = Inr ?new" by simp
  show "look m' = (look m)(i \<mapsto> ?new)"
    using write_look [OF assms(1) id, of "Status t" "LeaseToken t"] hit w t by simp
  show "inv m'"
    using write_inv [OF assms(1) id, of "Status t" "LeaseToken t"] w assms(2) by simp
qed

lemma commit_lost:
  assumes "inv m" and "look m i = Some t" and "Attempts t = 2 ^ 63 - 1"
    and "Scheduler_commitClaim ops wid i ttl x m = (res, m')"
  shows "res = Inl ErrClaimLost" and "look m' = look m" and "inv m'"
proof -
  let ?new = "claimed_record wid x ttl (lease_token x i) t"
  note t = look_id [OF assms(1,2)] look_valid [OF assms(1,2)] look_clone [OF assms(1,2)]
  have "Validate ?new \<noteq> None" using assms(3) by (simp add: Validate_None_iff inc64_def)
  then have miss: "\<not> cas_hit i (Status t) (LeaseToken t) ?new (look m)" by (simp add: cas_hit_def)
  have id: "ID ?new = i" using t by simp
  have "res = Inl ErrClaimLost \<and> (m' = m \<or> m' = snd (update_if_state ops i (Status t) (LeaseToken t) ?new m))"
    using assms(4) write_miss [OF assms(1) id miss]
    by (auto simp: Scheduler_commitClaim_def get_iff [OF assms(1), THEN iffD2, OF assms(2)] Let_def
        split: prod.splits if_splits option.splits)
  moreover have "look (snd (update_if_state ops i (Status t) (LeaseToken t) ?new m)) = look m"
    "inv (snd (update_if_state ops i (Status t) (LeaseToken t) ?new m))"
    using write_look [OF assms(1) id, of "Status t" "LeaseToken t"]
      write_inv [OF assms(1) id, of "Status t" "LeaseToken t"] miss assms(2) by simp_all
  ultimately show "res = Inl ErrClaimLost" "look m' = look m" "inv m'" using assms(1) by auto
qed

lemma loop_inv_look:
  assumes "loop_inv m0 r now items skip m" and "i \<in> open_at items now skip"
  shows "m (ID (items ! i)) = Some (items ! i)" and "m0 (ID (items ! i)) = Some (items ! i)"
    and "deps_ok m t = deps_ok m0 t" and "i < length items" and "\<not> skip ! i" and "is_due now (items ! i)"
    and "length skip = length items"
  using assms failed_only_deps [of now m0 m t] by (auto simp: loop_inv_def open_at_def)

text \<open>The last iteration: the best candidate is committed.\<close>

lemma claim_commit:
  assumes inv: "inv m" and li: "loop_inv m0 r now items skip (look m)"
    and b: "bestDue items now skip = Some i" and c: "claimable m0 r now (items ! i)" and x: "now \<le> x"
    and all: "ran m0 \<subseteq> set items"
    and cm: "Scheduler_commitClaim ops wid (ID (items ! i)) ttl x m = (res, m')"
    and r': "map_of r' = (map_of r)(ID (items ! i) \<mapsto> None)"
  shows "claim_post m0 r now wid ttl res (look m') r' \<and> inv m' \<and> (\<exists>t. res = Inr t)"
proof -
  let ?t = "items ! i" and ?new = "claimed_record wid x ttl (lease_token x (ID (items ! i))) (items ! i)"
  note op = loop_inv_look [OF li bestDue_Some(1) [OF b]]
  have due: "is_due x ?t" using op(6) x by (auto simp: is_due_def)
  note cl = commit_look [OF inv op(1) due _ cm]
  have att: "Attempts ?t \<noteq> 2 ^ 63 - 1" using c by (simp add: claimable_def)
  have best: "\<not> dueBefore u ?t" if u: "m0 j = Some u" "claimable m0 r now u" for j u
  proof -
    from all ranI [of m0, OF u(1)] obtain k where k: "k < length items" "items ! k = u" by (force simp: in_set_conv_nth)
    with u li have "\<not> skip ! k" by (auto simp: loop_inv_def)
    with k u(2) have "k \<in> open_at items now skip" by (auto simp: open_at_def claimable_def)
    from bestDue_Some(2) [OF b this] k show ?thesis by simp
  qed
  have "failed_only now m0 ((look m)(ID ?t \<mapsto> ?t))"
    using li op(1) by (simp add: loop_inv_def fun_upd_idem)
  then have "claim_post m0 r now wid ttl (Inr ?new) ((look m)(ID ?t \<mapsto> ?new)) r'"
    unfolding claim_post_def using op(2) c x best r' by auto
  with cl [OF att] show ?thesis by simp
qed

lemma claim_none:
  assumes "loop_inv m0 r now items skip m" and "bestDue items now skip = None"
    and "ran m0 \<subseteq> set items" and "m0 j = Some u"
  shows "\<not> claimable m0 r now u"
proof
  assume c: "claimable m0 r now u"
  from assms(3) ranI [of m0, OF assms(4)] obtain k where k: "k < length items" "items ! k = u" by (force simp: in_set_conv_nth)
  with c assms(1) have "\<not> skip ! k" by (auto simp: loop_inv_def)
  with k c have "k \<in> open_at items now skip" by (auto simp: open_at_def claimable_def)
  with assms(2) show False by (auto simp: bestDue_None)
qed

text \<open>One iteration either passes over its candidate and keeps the loop's invariant, or ends the loop with
  the candidate committed.\<close>

definition passes_over ::
  "(string \<rightharpoonup> task) \<Rightarrow> (string, nat option) gmap \<Rightarrow> gtime \<Rightarrow> task list \<Rightarrow> bool list \<Rightarrow> 'a scheduler \<Rightarrow> 'a scheduler \<Rightarrow> bool" where
  "passes_over m0 r now items skip s s1 \<longleftrightarrow> inv (store s1) \<and> loop_inv m0 r now items skip (look (store s1))
     \<and> map_of (running s1) = map_of r \<and> leaseTTL s1 = leaseTTL s"

lemma claim_step_unready:
  assumes inv: "inv (store s)" and li: "loop_inv m0 r now items skip (look (store s))"
    and run: "map_of (running s) = map_of r" and b: "bestDue items now skip = Some i"
    and rd: "Scheduler_dependenciesReady ops (items ! i) (store s) = (False, e)"
    and nd: "\<not> deps_ok (look (store s)) (items ! i)"
  shows "\<exists>s1. passes_over m0 r now items (skip[i := True]) s s1
     \<and> claim_loop (Suc n) ops wid items now clk skip s
         = claim_loop n ops wid items now (later 2 clk) (skip[i := True]) s1"
proof -
  let ?t = "items ! i"
  note op = loop_inv_look [OF li bestDue_Some(1) [OF b]]
  have nd0: "\<not> deps_ok m0 ?t" using nd by (simp add: op(3))
  show ?thesis
  proof (cases "e = []")
    case True
    have "passes_over m0 r now items (skip[i := True]) s s"
      using loop_inv_skip [OF li op(4)] nd0 inv run by (simp add: claimable_def passes_over_def)
    with b rd True show ?thesis by (intro exI [of _ s]) (simp add: Let_def)
  next
    case False
    let ?s1 = "s\<lparr>store := Scheduler_failUnreadyTask ops ?t e (clk 0) (store s)\<rparr>"
    note fl = fail_look [OF inv op(1), of e "clk 0"]
    have "passes_over m0 r now items (skip[i := True]) s ?s1"
      using loop_inv_fail [OF li op(4,5,6) nd0 False, of "clk 0"] fl run by (simp add: passes_over_def)
    with b rd False show ?thesis by (intro exI [of _ ?s1]) (simp add: Let_def)
  qed
qed

lemma claim_step_ready:
  assumes inv: "inv (store s)" and li: "loop_inv m0 r now items skip (look (store s))"
    and run: "map_of (running s) = map_of r" and b: "bestDue items now skip = Some i"
    and all: "ran m0 \<subseteq> set items" and x: "now \<le> clk 0"
    and rd: "Scheduler_dependenciesReady ops (items ! i) (store s) = (True, [])"
    and ok: "deps_ok (look (store s)) (items ! i)"
    and cl: "claim_loop (Suc n) ops wid items now clk skip s = (res, s')"
  shows "(\<exists>s1. passes_over m0 r now items (skip[i := True]) s s1
        \<and> claim_loop n ops wid items now (later 2 clk) (skip[i := True]) s1 = (res, s'))
     \<or> claim_post m0 r now wid (leaseTTL s) res (look (store s')) (running s') \<and> inv (store s')"
proof -
  let ?t = "items ! i"
  let ?r' = "AList.update (ID ?t) None (running s)"
  note op = loop_inv_look [OF li bestDue_Some(1) [OF b]]
  obtain cres m where cm: "Scheduler_commitClaim ops wid (ID ?t) (leaseTTL s) (clk 0) (store s) = (cres, m)"
    by fastforce
  consider (held) "map_of (running s) (ID ?t) \<noteq> None"
    | (full) "map_of (running s) (ID ?t) = None" "Attempts ?t = 2 ^ 63 - 1"
    | (free) "map_of (running s) (ID ?t) = None" "Attempts ?t \<noteq> 2 ^ 63 - 1" by blast
  then show ?thesis
  proof cases
    case held
    then have "passes_over m0 r now items (skip[i := True]) s s"
      using loop_inv_skip [OF li op(4)] inv run by (simp add: claimable_def passes_over_def)
    with cl b rd held show ?thesis by (auto simp: Let_def)
  next
    case full
    let ?s3 = "s\<lparr>store := m, running := AList.delete (ID ?t) ?r'\<rparr>"
    note lost = commit_lost [OF inv op(1) full(2) cm]
    have "passes_over m0 r now items (skip[i := True]) s ?s3"
      using loop_inv_skip [OF li op(4)] full lost(2,3) run
      by (simp add: claimable_def passes_over_def gmap_simps fun_upd_idem)
    with cl b rd full(1) cm lost(1) show ?thesis by (intro disjI1 exI [of _ ?s3]) (simp add: Let_def)
  next
    case free
    have c: "claimable m0 r now ?t" using op(3,6) ok free run by (simp add: claimable_def)
    have "map_of ?r' = (map_of r)(ID ?t \<mapsto> None)" using run by (simp add: gmap_simps)
    note cc = claim_commit [OF inv li b c x all cm this]
    then obtain t where t: "cres = Inr t" by blast
    with cl b rd free(1) cm have "res = Inr t" "store s' = m" "running s' = ?r'" by (auto simp: Let_def)
    with cc t show ?thesis by simp
  qed
qed

lemma claim_loop_correct:
  assumes "inv (store s)" and "loop_inv m0 r now items skip (look (store s))"
    and "map_of (running s) = map_of r"
    and all: "ran m0 \<subseteq> set items" and "\<And>k. now \<le> clk k"
    and "card (open_at items now skip) < n"
    and "claim_loop n ops wid items now clk skip s = (res, s')"
  shows "claim_post m0 r now wid (leaseTTL s) res (look (store s')) (running s') \<and> inv (store s')"
  using assms(1-3,5-)
proof (induction n arbitrary: clk skip s)
  case 0
  then show ?case by simp
next
  case (Suc n)
  show ?case
  proof (cases "bestDue items now skip")
    case None
    then have "res = Inl ErrNoTask" "s' = s" using Suc.prems(6) by auto
    with Suc.prems(1-3) claim_none [OF Suc.prems(2) None all] show ?thesis
      by (auto simp: claim_post_def loop_inv_def)
  next
    case (Some i)
    have small: "card (open_at items now (skip[i := True])) < n"
      using open_at_shrinks [OF bestDue_Some(1) [OF Some]] loop_inv_look(7) [OF Suc.prems(2) bestDue_Some(1) [OF Some]]
        Suc.prems(5) by simp
    have pass: ?thesis
      if "passes_over m0 r now items (skip[i := True]) s s1"
        "claim_loop n ops wid items now (later 2 clk) (skip[i := True]) s1 = (res, s')" for s1
      using Suc.IH [OF _ _ _ _ small that(2)] that(1) Suc.prems(4) by (simp add: passes_over_def)
    show ?thesis
    proof (rule ready_cases [OF Suc.prems(1), of "items ! i"])
      fix e
      assume "Scheduler_dependenciesReady ops (items ! i) (store s) = (False, e)"
        "\<not> deps_ok (look (store s)) (items ! i)"
      from claim_step_unready [OF Suc.prems(1-3) Some this, of n wid clk] Suc.prems(6) pass
      show ?thesis by auto
    next
      assume "Scheduler_dependenciesReady ops (items ! i) (store s) = (True, [])"
        "deps_ok (look (store s)) (items ! i)"
      from claim_step_ready [OF Suc.prems(1-3) Some all Suc.prems(4) this Suc.prems(6)] pass
      show ?thesis by auto
    qed
  qed
qed

lemma claim_correct:
  assumes inv: "inv (store s)" and lead: "leaderGate s \<noteq> Some False"
    and w: "Scheduler_workerHealthy ops wid (clk 0) s" and mono: "\<And>k. clk 1 \<le> clk (k + 2)"
    and cl: "Scheduler_Claim ops wid clk s = (res, s')"
  shows "claim_post (look (store s)) (running s) (clk 1) wid (leaseTTL s) res (look (store s')) (running s')
     \<and> inv (store s')"
proof -
  from list [OF inv] obtain items
    where it: "List ops (store s) = Inr items" "distinct (map ID items)" "set items = ran (look (store s))" by auto
  let ?n = "length items"
  have start: "loop_inv (look (store s)) (running s) (clk 1) items (replicate ?n False) (look (store s))"
    using it in_list_iff [OF inv it(1)] by (auto simp: loop_inv_def)
  have "card (open_at items (clk 1) (replicate ?n False)) < Suc ?n"
    using card_mono [of "{..<?n}" "open_at items (clk 1) (replicate ?n False)"]
    by (simp add: less_Suc_eq_le) (auto simp: open_at_def)
  moreover have "claim_loop (Suc ?n) ops wid items (clk 1) (later 2 clk) (replicate ?n False) s = (res, s')"
    using cl lead w it(1) by (simp add: Scheduler_Claim_def no_claimer)
  ultimately show ?thesis
    using claim_loop_correct [OF inv start refl, of "later 2 clk"] it(3) mono by (simp add: later_def)
qed

end

section \<open>Properties\<close>

lemma claim_post_Inr:
  "claim_post m0 r now wid ttl (Inr t) m r' \<Longrightarrow> \<exists>i. \<exists>t0. m0 i = Some t0 \<and> claimable m0 r now t0"
  by (auto simp: claim_post_def)

lemma map_sum_InrE:
  assumes "map_sum f g (fst p) = Inr y"
  obtains x s where "p = (Inr x, s)" and "g x = y"
  using assms by (cases p; cases "fst p") auto

lemma claim_success_guards:
  "Scheduler_Claim ops wid clk s = (Inr t, s') \<Longrightarrow> leaderGate s \<noteq> Some False \<and> Scheduler_workerHealthy ops wid (clk 0) s"
  by (auto simp: Scheduler_Claim_def split: if_splits)

text \<open>C3: a successful claim hands out a task that was runnable: due, with every dependency succeeded and no
  other reservation on it. No runnable task comes before it in the queue's order (priority, then time,
  then id). The task is stored as running, leased to the worker for the lease time under a new token,
  with one more attempt; every other record is as it was, except due tasks failed because of their
  dependencies; and the store's invariant holds again.\<close>

theorem claim_hands_out_best:
  assumes "mem_inv (store s)" and "mono clk" and "Scheduler_Claim memory_ops wid clk s = (Inr t, s')"
  shows "\<exists>t0 x. mem_look (store s) (ID t) = Some t0
     \<and> claimable (mem_look (store s)) (running s) (clk 1) t0
     \<and> (\<forall>i u. mem_look (store s) i = Some u \<longrightarrow> claimable (mem_look (store s)) (running s) (clk 1) u
           \<longrightarrow> \<not> dueBefore u t0)
     \<and> clk 1 \<le> x \<and> t = claimed_record wid x (leaseTTL s) (lease_token x (ID t0)) t0
     \<and> mem_look (store s') (ID t) = Some t
     \<and> failed_only (clk 1) (mem_look (store s)) ((mem_look (store s'))(ID t \<mapsto> t0))
     \<and> map_of (running s') = (map_of (running s))(ID t \<mapsto> None)
     \<and> mem_inv (store s')"
proof -
  have "\<And>k. clk 1 \<le> clk (k + 2)" using assms(2) by (simp add: mono_def)
  with mem.claim_correct [OF assms(1) _ _ _ assms(3)] claim_success_guards [OF assms(3)]
  show ?thesis by (auto simp: claim_post_def)
qed

theorem claim_hands_out_best_witness:
  "\<exists>t s' t0. Scheduler_Claim memory_ops ''w'' (\<lambda>_. 7) demo = (Inr t, s') \<and> ID t = ''b''
     \<and> mem_look (store demo) (ID t) = Some t0 \<and> claimable (mem_look (store demo)) (running demo) 7 t0
     \<and> mem_look (store s') (ID t) = Some t"
proof -
  have "map_sum (\<lambda>_. ()) ID (fst (Scheduler_Claim memory_ops ''w'' (\<lambda>_. 7) demo)) = Inr ''b''" by code_simp
  then obtain t s' where c: "Scheduler_Claim memory_ops ''w'' (\<lambda>_. 7) demo = (Inr t, s')" "ID t = ''b''"
    by (rule map_sum_InrE)
  from claim_hands_out_best [OF demo_inv monoI c(1)] c show ?thesis by blast
qed

text \<open>C4: a healthy worker that asks a leader always gets a task when a runnable one exists, and gets the
  answer that there is none only when no stored task is runnable; there is no other outcome.\<close>

theorem claim_finds_work:
  assumes "mem_inv (store s)" and "mono clk" and "leaderGate s \<noteq> Some False"
    and "Scheduler_workerHealthy memory_ops wid (clk 0) s"
  shows "if \<exists>i t. mem_look (store s) i = Some t \<and> claimable (mem_look (store s)) (running s) (clk 1) t
         then \<exists>t. fst (Scheduler_Claim memory_ops wid clk s) = Inr t
         else fst (Scheduler_Claim memory_ops wid clk s) = Inl ErrNoTask"
proof -
  obtain res s' where c: "Scheduler_Claim memory_ops wid clk s = (res, s')" by fastforce
  have "\<And>k. clk 1 \<le> clk (k + 2)" using assms(2) by (simp add: mono_def)
  with mem.claim_correct [OF assms(1,3,4) _ c]
  have "claim_post (mem_look (store s)) (running s) (clk 1) wid (leaseTTL s) res (mem_look (store s')) (running s')"
    by blast
  with c show ?thesis by (cases res) (auto simp: claim_post_def)
qed

theorem claim_finds_work_witness:
  "\<exists>t. fst (Scheduler_Claim memory_ops ''w'' (\<lambda>_. 7) demo) = Inr t"
proof -
  have l: "mem_look (store demo) ''b'' = Some (job ''b'' [''a''] StatusPending)"
    "mem_look (store demo) ''a'' = Some (job ''a'' [] StatusSuccess)"
    by (simp_all add: demo_def Scheduler_New_def demo_store_def mem_look_def Let_def)
  have "claimable (mem_look (store demo)) (running demo) 7 (job ''b'' [''a''] StatusPending)"
    using l by (simp add: claimable_def deps_ok_def is_due_def demo_def Scheduler_New_def Let_def job_def zero_task_def append_nil_def)
  moreover have "leaderGate demo \<noteq> Some False" by code_simp
  moreover have "Scheduler_workerHealthy memory_ops ''w'' 7 demo" by code_simp
  ultimately show ?thesis
    using claim_finds_work [of demo "\<lambda>_. 7" "''w''"] l by (auto simp: mono_def split: if_splits)
qed

end
