(* ===== verification/Leases.thy ===== *)
theory Leases
  imports Claiming
begin

text \<open>
  Leases: completion and renewal are accepted exactly under a live lease and end it for good; the reaper,
  the recovery at start and the requeue at stop take back exactly the tasks they should; a heartbeat
  extends the leases of its own worker only.
\<close>

section \<open>Loops over a listing\<close>

context task_store
begin

text \<open>The loops over a listing write each record at most once. \<open>st\<close> reads the store out of the state the
  loop runs on, \<open>P\<close> selects the records it writes and \<open>g\<close> is what it writes; \<open>ob\<close> observes the rest of
  the state and \<open>h\<close> is what a write does to it.\<close>

lemma fold_records:
  assumes "inv (st s)" and "distinct (map ID items)" and "\<And>t. t \<in> set items \<Longrightarrow> look (st s) (ID t) = Some t"
    and step: "\<And>t s. inv (st s) \<Longrightarrow> look (st s) (ID t) = Some t \<Longrightarrow> t \<in> set items \<Longrightarrow> inv (st (step t s))
      \<and> look (st (step t s)) = (if P t then (look (st s))(ID t \<mapsto> g t) else look (st s))
      \<and> ob (step t s) = (if P t then h t (ob s) else ob s)"
  shows "inv (st (fold step items s))
    \<and> look (st (fold step items s))
       = (\<lambda>i. map_option (\<lambda>t. if t \<in> set items \<and> P t then g t else t) (look (st s) i))
    \<and> ob (fold step items s) = fold h (filter P items) (ob s)"
  using assms
proof (induction items arbitrary: s)
  case Nil
  then show ?case by (simp add: option.map_ident)
next
  case (Cons t ts)
  let ?s = "step t s"
  have ob: "ob ?s = (if P t then h t (ob s) else ob s)"
    using Cons.prems(4) [of s t] Cons.prems(1,3) by auto
  have st: "inv (st ?s)" "look (st ?s) = (if P t then (look (st s))(ID t \<mapsto> g t) else look (st s))"
    using Cons.prems(4) [of s t] Cons.prems(1,3) by auto
  have fresh: "ID u \<noteq> ID t" if "u \<in> set ts" for u using Cons.prems(2) that by (auto simp: rev_image_eqI)
  have old: "look (st ?s) (ID u) = Some u" if "u \<in> set ts" for u
    using st(2) fresh [OF that] Cons.prems(3) [of u] that by auto
  have ih: "inv (st (fold step ts ?s)) \<and> look (st (fold step ts ?s))
       = (\<lambda>i. map_option (\<lambda>u. if u \<in> set ts \<and> P u then g u else u) (look (st ?s) i))
     \<and> ob (fold step ts ?s) = fold h (filter P ts) (ob ?s)"
    using Cons.IH [of ?s] st(1) old Cons.prems(2,4) by auto
  have t: "look (st s) (ID t) = Some t" using Cons.prems(3) by simp
  have "map_option (\<lambda>u. if u \<in> set ts \<and> P u then g u else u) (look (st ?s) i)
      = map_option (\<lambda>u. if u \<in> set (t # ts) \<and> P u then g u else u) (look (st s) i)" for i
  proof (cases "i = ID t")
    case True
    obtain v where v: "look (st ?s) (ID t) = Some v" "v = (if P t then g t else t)" using st(2) t by simp
    then have "v \<notin> set ts" using fresh look_id [OF st(1) v(1)] by metis
    with v t True show ?thesis by simp
  next
    case False
    then have "look (st ?s) i = look (st s) i" using st(2) by simp
    moreover have "look (st s) i \<noteq> Some t" using False look_id [OF Cons.prems(1)] by blast
    ultimately show ?thesis by (cases "look (st s) i") auto
  qed
  with ih ob show ?case by simp
qed

text \<open>The same for a whole listing.\<close>

lemma fold_listed:
  assumes "inv (st s)" and "List ops (st s) = Inr items"
    and "\<And>t s. inv (st s) \<Longrightarrow> look (st s) (ID t) = Some t \<Longrightarrow> t \<in> set items \<Longrightarrow> inv (st (step t s))
      \<and> look (st (step t s)) = (if P t then (look (st s))(ID t \<mapsto> g t) else look (st s))
      \<and> ob (step t s) = (if P t then h t (ob s) else ob s)"
  shows "inv (st (fold step items s))"
    and "look (st (fold step items s)) = (\<lambda>i. map_option (\<lambda>t. if P t then g t else t) (look (st s) i))"
    and "ob (fold step items s) = fold h (filter P items) (ob s)"
proof -
  note mem = in_list_iff [OF assms(1,2)]
  have f: "inv (st (fold step items s)) \<and> look (st (fold step items s))
      = (\<lambda>i. map_option (\<lambda>t. if t \<in> set items \<and> P t then g t else t) (look (st s) i))
    \<and> ob (fold step items s) = fold h (filter P items) (ob s)"
    by (rule fold_records [of st s, OF assms(1) list_distinct [OF assms(1,2)]]) (use mem assms(3) in auto)
  then show "inv (st (fold step items s))" "ob (fold step items s) = fold h (filter P items) (ob s)" by simp_all
  show "look (st (fold step items s)) = (\<lambda>i. map_option (\<lambda>t. if P t then g t else t) (look (st s) i))"
    using f mem look_id [OF assms(1)] by (auto simp: fun_eq_iff intro!: option.map_cong)
qed

section \<open>Taking tasks back\<close>

lemma write_hit:
  assumes "inv m" and "look m (ID t) = Some t" and "static new = static t" and "Validate new = None" and "clone new = new"
  shows "look (snd (update_if_state ops (ID t) (Status t) (LeaseToken t) new m)) = (look m)(ID t \<mapsto> new)"
    and "inv (snd (update_if_state ops (ID t) (Status t) (LeaseToken t) new m))"
proof -
  have id: "ID new = ID t" using assms(3) by (rule static_ID)
  have "cas_hit (ID t) (Status t) (LeaseToken t) new (look m)" using assms by (simp add: cas_hit_def)
  then show "look (snd (update_if_state ops (ID t) (Status t) (LeaseToken t) new m)) = (look m)(ID t \<mapsto> new)"
    using write_look [OF assms(1) id] assms(5) by simp
  show "inv (snd (update_if_state ops (ID t) (Status t) (LeaseToken t) new m))"
    using write_inv [OF assms(1) id] assms(2) static_key [OF assms(3)] by simp
qed

lemma update_hit:
  assumes "inv m" and "look m (ID t) = Some t" and "static new = static t" and "Validate new = None" and "clone new = new"
  shows "look (snd (Update ops new m)) = (look m)(ID t \<mapsto> new)" and "inv (snd (Update ops new m))"
  using update [OF assms(1), of new] inv_update [OF assms(1), of new t] assms static_ID [OF assms(3)] static_key [OF assms(3)]
  by (simp_all add: meets_def update_spec_def)

lemma recover_step_look:
  assumes "inv m" and "look m (ID t) = Some t" and "now \<noteq> 0"
  shows "inv (recover_step ops now t m) \<and> look (recover_step ops now t m)
      = (if Status t = StatusRunning
         then (look m)(ID t \<mapsto> retry_record ''scheduler restarted while task was running'' now t) else look m)"
  using assms look_valid [OF assms(1,2)] look_clone [OF assms(1,2)] by (simp add: recover_step_def update_hit)

lemma recover_look:
  assumes "inv (store s)" and "now \<noteq> 0"
  shows "inv (store (Scheduler_recoverRunning ops now s))"
    and "look (store (Scheduler_recoverRunning ops now s)) = (\<lambda>i. map_option (\<lambda>t. if Status t = StatusRunning
           then retry_record ''scheduler restarted while task was running'' now t else t) (look (store s) i))"
proof -
  obtain items where it: "List ops (store s) = Inr items" using list_total [OF assms(1)] by blast
  note f = fold_listed [of "\<lambda>m. m" "store s" items "recover_step ops now" "\<lambda>t. Status t = StatusRunning"
      "retry_record ''scheduler restarted while task was running'' now" "\<lambda>_. ()" "\<lambda>_ _. ()",
      OF assms(1) it]
  show "inv (store (Scheduler_recoverRunning ops now s))"
    "look (store (Scheduler_recoverRunning ops now s)) = (\<lambda>i. map_option (\<lambda>t. if Status t = StatusRunning
           then retry_record ''scheduler restarted while task was running'' now t else t) (look (store s) i))"
    using f(1,2) recover_step_look [OF _ _ assms(2)] it by (simp_all add: Scheduler_recoverRunning_def listed_def)
qed

text \<open>The requeue at stop only writes the store, and the workers it asks about stay the same.\<close>

lemma requeue_fold:
  "fold (requeue_step ops now) items s
     = s\<lparr>store := fold (\<lambda>t m. if Status t = StatusRunning \<and> Scheduler_isLocalWorker (WorkerID t) s
          then snd (update_if_state ops (ID t) (Status t) (LeaseToken t)
                 (retry_record ''scheduler stopped while task was running'' now t) m) else m) items (store s)\<rparr>"
  by (induction items arbitrary: s) (auto simp: requeue_step_def Scheduler_isLocalWorker_def)

lemma requeue_look:
  assumes "inv (store s)" and "now \<noteq> 0"
  shows "inv (store (Scheduler_requeueRunningOnStop ops now s))"
    and "look (store (Scheduler_requeueRunningOnStop ops now s)) = (\<lambda>i. map_option (\<lambda>t.
           if Status t = StatusRunning \<and> Scheduler_isLocalWorker (WorkerID t) s
           then retry_record ''scheduler stopped while task was running'' now t else t) (look (store s) i))"
proof -
  let ?P = "\<lambda>t. Status t = StatusRunning \<and> Scheduler_isLocalWorker (WorkerID t) s"
  let ?g = "retry_record ''scheduler stopped while task was running'' now"
  let ?step = "\<lambda>t m. if ?P t then snd (update_if_state ops (ID t) (Status t) (LeaseToken t) (?g t) m) else m"
  obtain items where it: "List ops (store s) = Inr items" using list_total [OF assms(1)] by blast
  have step: "inv (?step t m) \<and> look (?step t m) = (if ?P t then (look m)(ID t \<mapsto> ?g t) else look m)"
    if "inv m" "look m (ID t) = Some t" for t m
    using that(1) assms(2) write_hit [OF that, of "?g t"] look_valid [OF that] look_clone [OF that] by auto
  note f = fold_listed [of "\<lambda>m. m" "store s" items ?step ?P ?g "\<lambda>_. ()" "\<lambda>_ _. ()", OF assms(1) it]
  have "store (Scheduler_requeueRunningOnStop ops now s) = fold ?step items (store s)"
    using it by (simp add: Scheduler_requeueRunningOnStop_def listed_def requeue_fold)
  with f(1,2) step show "inv (store (Scheduler_requeueRunningOnStop ops now s))"
    "look (store (Scheduler_requeueRunningOnStop ops now s)) = (\<lambda>i. map_option (\<lambda>t. if ?P t then ?g t else t) (look (store s) i))"
    by auto
qed

end

text \<open>The ids of the running tasks whose lease has run out.\<close>

definition lapsed_ids :: "gtime \<Rightarrow> (string \<rightharpoonup> task) \<Rightarrow> string set" where
  "lapsed_ids now m = {i. \<exists>t. m i = Some t \<and> lease_lapsed now t}"

lemma fold_taken:
  "fold (\<lambda>t (n, r). (n + 1, r(ID t := None))) ts (n, r)
     = (n + of_nat (length ts), \<lambda>i. if i \<in> ID ` set ts then None else r i)"
  for n :: "64 word" and r :: "string \<rightharpoonup> nat option"
  by (induction ts arbitrary: n r) (auto simp: fun_eq_iff)

text \<open>The record a completion report leads to.\<close>

definition completed :: "string \<Rightarrow> char slice \<Rightarrow> gtime \<Rightarrow> task \<Rightarrow> task" where
  "completed failure res now t =
     (if failure = [] then fst (finished_record None now (t\<lparr>Result := append_nil res\<rparr>))
      else fst (finished_record (Some (ErrNew failure)) now t))"

lemma completed_record:
  "Validate t = None \<Longrightarrow> 0 < now \<Longrightarrow> RunCount t \<noteq> 2 ^ 63 - 1 \<Longrightarrow> Validate (completed failure res now t) = None"
  "clone t = t \<Longrightarrow> clone (completed failure res now t) = completed failure res now t"
  "static (completed failure res now t) = static t"
  by (simp_all add: completed_def Validate_finished)

context local_store
begin

lemma lapsed_not_terminal: "lease_lapsed now t \<Longrightarrow> \<not> IsTerminal t"
  by (auto simp: lease_lapsed_def IsTerminal_def)

lemma reap_step_look:
  assumes "inv (store s)" and "look (store s) (ID t) = Some t" and "now \<noteq> 0"
  defines "new \<equiv> retry_record ''worker lease expired'' now t"
  shows "inv (store (reap_step ops now t s))
    \<and> look (store (reap_step ops now t s)) = (if lease_lapsed now t then (look (store s))(ID t \<mapsto> new) else look (store s))
    \<and> (leaseExpired (reap_step ops now t s), map_of (running (reap_step ops now t s)))
        = (if lease_lapsed now t then (leaseExpired s + 1, (map_of (running s))(ID t := None))
           else (leaseExpired s, map_of (running s)))"
proof (cases "lease_lapsed now t")
  case False
  then show ?thesis using assms(1) by (simp add: reap_step_def)
next
  case True
  then have r: "Status t = StatusRunning" by (simp add: lease_lapsed_def)
  have new: "static new = static t" "Validate new = None" "clone new = new"
    using look_valid [OF assms(1,2)] look_clone [OF assms(1,2)] assms(3) by (simp_all add: new_def)
  obtain err m where w: "update_if_state ops (ID t) StatusRunning (LeaseToken t) new (store s) = (err, m)" by fastforce
  have "cas_hit (ID t) StatusRunning (LeaseToken t) new (look (store s))" using assms(2) new(2) r by (simp add: cas_hit_def)
  with write_ok [OF assms(1) static_ID [OF new(1)], of StatusRunning "LeaseToken t"] w have "err = None" by simp
  then have "reap_step ops now t s = (release (ID t) s)\<lparr>store := m, leaseExpired := leaseExpired s + 1\<rparr>"
    using w True lapsed_not_terminal [OF True]
    by (simp add: reap_step_def updater update_if_state_eq new_def Let_def)
  moreover have "look m = (look (store s))(ID t \<mapsto> new) \<and> inv m"
    using write_hit [OF assms(1,2) new] w r by simp
  ultimately show ?thesis using True by simp
qed

lemma reap_look:
  assumes "inv (store s)" and "clk 1 \<noteq> 0"
  defines "s' \<equiv> Scheduler_reapExpired ops clk s"
  shows "inv (store s')"
    and "look (store s') = (\<lambda>i. map_option (\<lambda>t. if lease_lapsed (clk 1) t
           then retry_record ''worker lease expired'' (clk 1) t else t) (look (store s) i))"
    and "map_of (running s') = (\<lambda>i. if i \<in> lapsed_ids (clk 1) (look (store s)) then None else map_of (running s) i)"
    and "leaseExpired s' = leaseExpired s + of_nat (card (lapsed_ids (clk 1) (look (store s))))"
proof -
  obtain items where it: "List ops (store s) = Inr items" using list_total [OF assms(1)] by blast
  let ?ob = "\<lambda>s. (leaseExpired s, map_of (running s))"
  note f = fold_listed [of store s items "reap_step ops (clk 1)" "lease_lapsed (clk 1)"
      "retry_record ''worker lease expired'' (clk 1)" ?ob "\<lambda>t (n, r). (n + 1, r(ID t := None))", OF assms(1) it]
  have s': "s' = fold (reap_step ops (clk 1)) items s"
    using it by (simp add: s'_def Scheduler_reapExpired_def Scheduler_expiredCandidates_def no_scanner)
  let ?ts = "filter (lease_lapsed (clk 1)) items"
  have "distinct (map ID ?ts)" using list_distinct [OF assms(1) it] by (rule distinct_map_filter)
  then have "length ?ts = card (ID ` set ?ts)" using distinct_card [of "map ID ?ts"] by simp
  moreover have ids: "ID ` set ?ts = lapsed_ids (clk 1) (look (store s))"
    by (auto simp: lapsed_ids_def in_list_iff [OF assms(1) it]) (metis (lifting) imageI look_id [OF assms(1)] mem_Collect_eq)
  moreover have "?ob s' = fold (\<lambda>t (n, r). (n + 1, r(ID t := None))) ?ts (?ob s)"
    unfolding s' by (rule f(3)) (use reap_step_look [OF _ _ assms(2)] in simp)
  ultimately show "map_of (running s') = (\<lambda>i. if i \<in> lapsed_ids (clk 1) (look (store s)) then None else map_of (running s) i)"
    "leaseExpired s' = leaseExpired s + of_nat (card (lapsed_ids (clk 1) (look (store s))))"
    by (simp_all add: fold_taken)
  show "inv (store s')" "look (store s') = (\<lambda>i. map_option (\<lambda>t. if lease_lapsed (clk 1) t
           then retry_record ''worker lease expired'' (clk 1) t else t) (look (store s) i))"
    unfolding s' using f(1,2) reap_step_look [OF _ _ assms(2)] by simp_all
qed

section \<open>Completion\<close>

lemma finish_look:
  assumes "inv (store s)" and "look (store s) (ID t) = Some t0" and "static t = static t0"
    and "Status t0 = StatusRunning" and "LeaseToken t0 = LeaseToken t"
    and "Validate (fst (finished_record e now t)) = None" and "clone t = t"
  shows "\<exists>m. Scheduler_finish ops t e now s = (None, count_metric (snd (finished_record e now t)) (s\<lparr>store := m\<rparr>))
     \<and> look m = (look (store s))(ID t \<mapsto> fst (finished_record e now t)) \<and> inv m"
proof -
  let ?new = "fst (finished_record e now t)"
  obtain err m where w: "update_if_state ops (ID t) StatusRunning (LeaseToken t) ?new (store s) = (err, m)" by fastforce
  have id: "ID ?new = ID t" by simp
  have hit: "cas_hit (ID t) StatusRunning (LeaseToken t) ?new (look (store s))" using assms by (simp add: cas_hit_def)
  with write_ok [OF assms(1) id, of StatusRunning "LeaseToken t"] w have "err = None" by simp
  moreover have "look m = (look (store s))(ID t \<mapsto> ?new)"
    using write_look [OF assms(1) id, of StatusRunning "LeaseToken t"] hit w assms(7) by simp
  moreover have "inv m"
    using write_inv [OF assms(1) id, of StatusRunning "LeaseToken t"] assms(2) w static_key [OF assms(3)] by simp
  ultimately show ?thesis using w by (auto simp: Scheduler_finish_def Let_def split: prod.splits)
qed

lemma complete_ok:
  assumes "inv (store s)" and "look (store s) i = Some t" and "validLease t wid token (clk 0)"
    and "0 < clk 1" and "RunCount t \<noteq> 2 ^ 63 - 1"
  shows "\<exists>s'. Scheduler_CompleteTaskWithResult ops wid i token failure res clk s = (None, s')
     \<and> look (store s') = (look (store s))(i \<mapsto> completed failure res (clk 1) t) \<and> inv (store s')
     \<and> map_of (running s') = (map_of (running s))(i := None)"
proof -
  let ?e = "if failure \<noteq> [] then Some (ErrNew failure) else None"
  let ?t = "if ?e = None then t\<lparr>Result := append_nil res\<rparr> else t"
  note t = look_id [OF assms(1,2)] look_valid [OF assms(1,2)] look_clone [OF assms(1,2)]
  have run: "Status t = StatusRunning" using assms(3) by (simp add: validLease_def)
  have "static ?t = static t" "clone ?t = ?t" "ID ?t = i" "LeaseToken t = LeaseToken ?t" using t by auto
  moreover have "fst (finished_record ?e (clk 1) ?t) = completed failure res (clk 1) t" by (simp add: completed_def)
  ultimately obtain m where m: "Scheduler_finish ops ?t ?e (clk 1) s
       = (None, count_metric (snd (finished_record ?e (clk 1) ?t)) (s\<lparr>store := m\<rparr>))"
     "look m = (look (store s))(i \<mapsto> completed failure res (clk 1) t)" "inv m"
    using finish_look [of s ?t t ?e "clk 1"] assms completed_record(1) [OF t(2) assms(4,5)] run by auto
  then show ?thesis
    using assms(3) get_iff [OF assms(1), of i t] assms(2)
    by (simp add: Scheduler_CompleteTaskWithResult_def Let_def gmap_simps)
qed

lemma complete_needs_lease:
  assumes "inv (store s)" and "Scheduler_CompleteTaskWithResult ops wid i token failure res clk s = (None, s')"
  shows "\<exists>t. look (store s) i = Some t \<and> validLease t wid token (clk 0)
     \<and> look (store s') = (look (store s))(i \<mapsto> completed failure res (clk 1) t) \<and> inv (store s')"
proof -
  let ?e = "if failure \<noteq> [] then Some (ErrNew failure) else None"
  from assms(2) obtain t where t: "look (store s) i = Some t" "validLease t wid token (clk 0)"
    by (auto simp: Scheduler_CompleteTaskWithResult_def get [OF assms(1)] split: option.splits if_splits)
  let ?t = "if ?e = None then t\<lparr>Result := append_nil res\<rparr> else t"
  let ?new = "completed failure res (clk 1) t"
  note v = look_id [OF assms(1) t(1)] look_clone [OF assms(1) t(1)]
  have new: "fst (finished_record ?e (clk 1) ?t) = ?new" by (simp add: completed_def)
  have id: "ID ?new = i" using v(1) by (simp add: completed_def)
  let ?w = "update_if_state ops i StatusRunning (LeaseToken t) ?new (store s)"
  from assms(2) t have w: "fst ?w = None \<and> store s' = snd ?w"
    using new v(1) by (auto simp: Scheduler_CompleteTaskWithResult_def Scheduler_finish_def get [OF assms(1)] Let_def
        split: prod.splits option.splits if_splits)
  with write_ok [OF assms(1) id] have "cas_hit i StatusRunning (LeaseToken t) ?new (look (store s))" by blast
  with w write_look [OF assms(1) id, of StatusRunning "LeaseToken t"] completed_record(2) [OF v(2)]
  have "look (store s') = (look (store s))(i \<mapsto> ?new)" by simp
  moreover have "inv (store s')"
    using w write_inv [OF assms(1) id, of StatusRunning "LeaseToken t"] t(1) static_key [OF completed_record(3)] by simp
  ultimately show ?thesis using t by blast
qed

lemma complete_refused:
  assumes "inv (store s)" and "\<And>t. look (store s) i = Some t \<Longrightarrow> \<not> validLease t wid token (clk 0)"
  shows "\<exists>e. Scheduler_CompleteTaskWithResult ops wid i token failure res clk s = (Some e, s)"
    and "\<exists>e. Scheduler_RenewTaskLease ops wid i token clk s = (Inl e, s)"
  using assms(2) by (auto simp: Scheduler_CompleteTaskWithResult_def Scheduler_RenewTaskLease_def get [OF assms(1)]
      split: option.splits)

end

text \<open>A store with one leased task for the witnesses.\<close>

definition leased_task :: task where
  "leased_task = (job ''r'' [] StatusRunning)\<lparr>Attempts := 1, WorkerID := ''w'', LeaseToken := ''tok'', LeaseUntil := Some 10\<rparr>"

definition leased :: "memory_store scheduler" where
  "leased = demo\<lparr>store := \<lparr>mtasks = [(''r'', leased_task), (''p'', job ''p'' [] StatusPending)], mworkers = mworkers demo_store\<rparr>,
     running := [(''r'', None)]\<rparr>"

lemma leased_task_fields [simp]:
  "ID leased_task = ''r''" "Status leased_task = StatusRunning" "Attempts leased_task = 1"
  "WorkerID leased_task = ''w''" "LeaseToken leased_task = ''tok''" "LeaseUntil leased_task = Some 10"
  "RunCount leased_task = 0" "Retry leased_task = \<lparr>MaxAttempts = 2, Backoff = 0\<rparr>" "Schedule leased_task = 0"
  "IdempotencyKey leased_task = []" "Validate leased_task = None" "clone leased_task = leased_task"
  by (simp_all add: leased_task_def job_def zero_task_def Validate_None_iff clone_def)

lemma leased_look [simp]:
  "mem_look (store leased) i = (if i = ''r'' then Some leased_task else if i = ''p'' then Some (job ''p'' [] StatusPending) else None)"
  by (auto simp: leased_def mem_look_def)

lemma leased_inv [simp]: "mem_inv (store leased)"
proof -
  have "dom (mem_look (store leased)) \<subseteq> {''r'', ''p''}" by (auto simp: dom_def split: if_splits)
  then have "finite (dom (mem_look (store leased)))" by (rule finite_subset) simp
  then have "wf_view (mem_look (store leased))"
    unfolding wf_view_def by (auto simp: split: if_splits)
  then show ?thesis by (simp add: mem_inv_def leased_def demo_store_def)
qed

lemma completed_status:
  "Status (completed failure res now t) =
     (if failure = [] then if 0 < Schedule t then StatusPending else StatusSuccess
      else if Attempts t < MaxAttempts (Retry t) then StatusRetrying else StatusFailed)"
  by (simp add: completed_def finished_record_def Let_def)

lemma completed_not_running: "Status (completed failure res now t) \<noteq> StatusRunning"
  by (simp add: completed_status)

section \<open>Properties\<close>

text \<open>C5: a worker's report under a live lease is accepted, and what becomes of the task is exactly the
  outcome table: a success ends the task, or queues the next run of a periodic task with a fresh retry
  budget; a failure is retried after the backoff while attempts are left and is final otherwise. The
  lease is gone, the run is counted, and nothing else in the store changes.\<close>

theorem complete_outcome:
  assumes "mem_inv (store s)" and "mem_look (store s) i = Some t" and "validLease t wid token (clk 0)"
    and "0 < clk 1" and "RunCount t \<noteq> 2 ^ 63 - 1"
  shows "\<exists>s' t'. Scheduler_CompleteTaskWithResult memory_ops wid i token failure res clk s = (None, s')
     \<and> mem_look (store s') = (mem_look (store s))(i \<mapsto> t') \<and> mem_inv (store s')
     \<and> map_of (running s') = (map_of (running s))(i := None)
     \<and> static t' = static t \<and> RunCount t' = RunCount t + 1
     \<and> WorkerID t' = [] \<and> LeaseToken t' = [] \<and> LeaseUntil t' = None
     \<and> (if failure = [] then
          LastError t' = [] \<and> Result t' = append_nil res
          \<and> (if 0 < Schedule t
             then Status t' = StatusPending \<and> RunAt t' = clk 1 + Schedule t \<and> Attempts t' = 0
             else Status t' = StatusSuccess \<and> FinishedAt t' = Some (clk 1))
        else
          LastError t' = failure \<and> Result t' = Result t \<and> Attempts t' = Attempts t
          \<and> (if Attempts t < MaxAttempts (Retry t)
             then Status t' = StatusRetrying \<and> RunAt t' = clk 1 + Backoff (Retry t)
             else Status t' = StatusFailed \<and> FinishedAt t' = Some (clk 1)))"
proof -
  let ?t = "completed failure res (clk 1) t"
  have "static ?t = static t" "RunCount ?t = RunCount t + 1" "WorkerID ?t = []" "LeaseToken ?t = []" "LeaseUntil ?t = None"
    "failure = [] \<Longrightarrow> LastError ?t = [] \<and> Result ?t = append_nil res"
    "failure \<noteq> [] \<Longrightarrow> LastError ?t = failure \<and> Result ?t = Result t \<and> Attempts ?t = Attempts t"
    "failure = [] \<Longrightarrow> 0 < Schedule t \<Longrightarrow> RunAt ?t = clk 1 + Schedule t \<and> Attempts ?t = 0"
    "failure = [] \<Longrightarrow> \<not> 0 < Schedule t \<Longrightarrow> FinishedAt ?t = Some (clk 1)"
    "failure \<noteq> [] \<Longrightarrow> Attempts t < MaxAttempts (Retry t) \<Longrightarrow> RunAt ?t = clk 1 + Backoff (Retry t)"
    "failure \<noteq> [] \<Longrightarrow> \<not> Attempts t < MaxAttempts (Retry t) \<Longrightarrow> FinishedAt ?t = Some (clk 1)"
    using assms(5) by (simp_all add: completed_record(3)) (simp_all add: completed_def finished_record_def Let_def inc64_below)
  moreover obtain s' where "Scheduler_CompleteTaskWithResult memory_ops wid i token failure res clk s = (None, s')"
    "mem_look (store s') = (mem_look (store s))(i \<mapsto> ?t)" "mem_inv (store s')"
    "map_of (running s') = (map_of (running s))(i := None)"
    using mem.complete_ok [OF assms, of failure res] by blast
  ultimately show ?thesis
    by (intro exI [of _ s'] exI [of _ ?t]) (simp add: completed_status)
qed

theorem complete_outcome_witness:
  "\<exists>s' t'. Scheduler_CompleteTaskWithResult memory_ops ''w'' ''r'' ''tok'' ''boom'' None (\<lambda>_. 7) leased = (None, s')
     \<and> mem_look (store s') ''r'' = Some t' \<and> Status t' = StatusRetrying \<and> LastError t' = ''boom''"
proof -
  have "validLease leased_task ''w'' ''tok'' 7" by (simp add: validLease_def)
  then show ?thesis
    using complete_outcome [of leased "''r''" leased_task "''w''" "''tok''" "\<lambda>_. 7" "''boom''" None] by auto
qed

text \<open>C6: no report is accepted without a live lease, and none twice: after an accepted report, every
  further report or renewal for that task is refused without effect, whichever worker and token it
  carries, until the task is claimed again.\<close>

theorem complete_once:
  assumes "mem_inv (store s)" and "Scheduler_CompleteTaskWithResult memory_ops wid i token failure res clk s = (None, s')"
  shows "(\<exists>t. mem_look (store s) i = Some t \<and> validLease t wid token (clk 0))
     \<and> (\<forall>wid' token' failure' res' clk'.
          (\<exists>e. Scheduler_CompleteTaskWithResult memory_ops wid' i token' failure' res' clk' s' = (Some e, s'))
        \<and> (\<exists>e. Scheduler_RenewTaskLease memory_ops wid' i token' clk' s' = (Inl e, s')))"
proof -
  from mem.complete_needs_lease [OF assms] obtain t
    where t: "mem_look (store s) i = Some t" "validLease t wid token (clk 0)" "mem_inv (store s')"
      "mem_look (store s') = (mem_look (store s))(i \<mapsto> completed failure res (clk 1) t)" by blast
  then have "\<not> validLease u wid' token' now" if "mem_look (store s') i = Some u" for u wid' token' now
    using that completed_not_running by (auto simp: validLease_def)
  with t mem.complete_refused [OF t(3)] show ?thesis by blast
qed

theorem complete_once_witness:
  "\<exists>s'. Scheduler_CompleteTaskWithResult memory_ops ''w'' ''r'' ''tok'' [] None (\<lambda>_. 7) leased = (None, s')
     \<and> (\<exists>e. Scheduler_CompleteTaskWithResult memory_ops ''w'' ''r'' ''tok'' [] None (\<lambda>_. 7) s' = (Some e, s'))"
proof -
  have "fst (Scheduler_CompleteTaskWithResult memory_ops ''w'' ''r'' ''tok'' [] None (\<lambda>_. 7) leased) = None" by code_simp
  then obtain s' where "Scheduler_CompleteTaskWithResult memory_ops ''w'' ''r'' ''tok'' [] None (\<lambda>_. 7) leased = (None, s')"
    by (metis prod.collapse)
  with complete_once [OF leased_inv this] show ?thesis by blast
qed

text \<open>C9: the reaper takes back exactly the running tasks whose lease has run out at its reading of the
  clock: each becomes due for a retry with its lease cleared and its reservation released, all other
  records and reservations stay, and the counter grows by their number (modulo its width).\<close>

theorem reap_exact:
  assumes "mem_inv (store s)" and "clk 1 \<noteq> 0"
  defines "s' \<equiv> Scheduler_reapExpired memory_ops clk s"
  shows "mem_look (store s') i = (case mem_look (store s) i of
           None \<Rightarrow> None
         | Some t \<Rightarrow> Some (if lease_lapsed (clk 1) t then retry_record ''worker lease expired'' (clk 1) t else t))
     \<and> map_of (running s') i = (if i \<in> lapsed_ids (clk 1) (mem_look (store s)) then None else map_of (running s) i)
     \<and> lapsed_ids (clk 1) (mem_look (store s')) = {}
     \<and> leaseExpired s' = leaseExpired s + of_nat (card (lapsed_ids (clk 1) (mem_look (store s))))
     \<and> mem_inv (store s')"
proof -
  note r = mem.reap_look [of s clk, OF assms(1,2), folded s'_def]
  have "lapsed_ids (clk 1) (mem_look (store s')) = {}"
    unfolding r(2) by (auto simp: lapsed_ids_def lease_lapsed_def retry_record_def split: if_splits)
  then show ?thesis using r by (simp split: option.split)
qed

theorem reap_exact_witness:
  "mem_look (store (Scheduler_reapExpired memory_ops (\<lambda>_. 10) leased)) ''r''
     = Some (retry_record ''worker lease expired'' 10 leased_task)
   \<and> mem_look (store (Scheduler_reapExpired memory_ops (\<lambda>_. 9) leased)) ''r'' = Some leased_task"
proof -
  have "lease_lapsed 10 leased_task" "\<not> lease_lapsed 9 leased_task" by (simp_all add: lease_lapsed_def)
  with reap_exact [OF leased_inv, of "\<lambda>_. 10" "''r''"] reap_exact [OF leased_inv, of "\<lambda>_. 9" "''r''"]
  show ?thesis by simp
qed

end
