(* ===== verification/Lifecycle.thy ===== *)
theory Lifecycle
  imports Leases
begin

text \<open>
  The rest of a task's and of the scheduler's life: heartbeats and lease renewal, cancellation and
  deletion, start and stop.
\<close>

section \<open>Heartbeats\<close>

context worker_store
begin

lemma heartbeat_look:
  assumes "inv (store s)" and "wlook (store s) i \<noteq> None"
  shows "\<exists>s'. Scheduler_Heartbeat ops i now s = (Inr (live_worker i now (leaseTTL s)), s')
     \<and> inv (store s') \<and> wlook (store s') = (wlook (store s))(i \<mapsto> live_worker i now (leaseTTL s))
     \<and> look (store s') = (\<lambda>k. map_option (extended i (now + leaseTTL s)) (look (store s) k))
     \<and> running s' = running s \<and> leaseTTL s' = leaseTTL s"
proof -
  let ?w = "live_worker i now (leaseTTL s)"
  obtain m where m: "HeartbeatWorker reg i (leaseTTL s) now (store s) = (Inr ?w, m)" "inv m"
    "look m = look (store s)" "wlook m = (wlook (store s))(i \<mapsto> ?w)" using heartbeat [OF assms] by blast
  obtain m' where m': "RenewWorkerTaskLeases reg i (now + leaseTTL s) m = (None, m')" "inv m'" "wlook m' = wlook m"
    "look m' = (\<lambda>k. map_option (extended i (now + leaseTTL s)) (look m k))" using renew [OF m(2)] by blast
  have "wLeaseUntil ?w = now + leaseTTL s" by (simp add: live_worker_def)
  with m m' show ?thesis by (simp add: Scheduler_Heartbeat_def registry)
qed

lemma heartbeat_err:
  assumes "inv (store s)" and "wlook (store s) i = None"
  shows "\<exists>e. Scheduler_Heartbeat ops i now s = (Inl e, s)"
  using heartbeat_refused [OF assms, of "leaseTTL s" now] by (auto simp: Scheduler_Heartbeat_def registry)

lemma register_look:
  assumes "inv (store s)" and "i \<noteq> []"
  shows "\<exists>m. Scheduler_RegisterWorker ops i now s
       = (Inr (live_worker i now (leaseTTL s)),
          s\<lparr>store := m, workersByID := AList.update i (live_worker i now (leaseTTL s)) (workersByID s)\<rparr>)
     \<and> inv m \<and> look m = look (store s) \<and> wlook m = (wlook (store s))(i \<mapsto> live_worker i now (leaseTTL s))"
proof -
  let ?w = "live_worker i now (leaseTTL s)"
  obtain m where "RegisterWorker reg i (leaseTTL s) now (store s) = (Inr ?w, m)" "inv m"
    "look m = look (store s)" "wlook m = (wlook (store s))(i \<mapsto> ?w)" using register [OF assms] by blast
  then show ?thesis by (intro exI [of _ m]) (simp add: Scheduler_RegisterWorker_def registry)
qed

lemma healthy_iff:
  "inv (store s) \<Longrightarrow> Scheduler_workerHealthy ops i now s \<longleftrightarrow> (\<exists>w. wlook (store s) i = Some w \<and> now < wLeaseUntil w)"
  by (simp add: Scheduler_workerHealthy_def registry get_worker split: option.split)

end

section \<open>Renewal, cancellation, deletion\<close>

context reliable_store
begin

lemma renew_ok:
  assumes "inv (store s)" and "look (store s) i = Some t" and "validLease t wid token (clk 0)"
  shows "\<exists>m. Scheduler_RenewTaskLease ops wid i token clk s
       = (Inr (t\<lparr>LeaseUntil := Some (clk 1 + leaseTTL s)\<rparr>), s\<lparr>store := m\<rparr>)
     \<and> look m = (look (store s))(i \<mapsto> t\<lparr>LeaseUntil := Some (clk 1 + leaseTTL s)\<rparr>) \<and> inv m"
proof -
  let ?t = "t\<lparr>LeaseUntil := Some (clk 1 + leaseTTL s)\<rparr>"
  note t = look_id [OF assms(1,2)] look_valid [OF assms(1,2)] look_clone [OF assms(1,2)]
  obtain err m where w: "update_if_lease ops i token ?t (store s) = (err, m)" by fastforce
  have id: "ID ?t = i" using t by simp
  have hit: "cas_hit i StatusRunning token ?t (look (store s))"
    using assms(2,3) t by (simp add: cas_hit_def validLease_def)
  with lease_ok [OF assms(1) id, of token] w have "err = None" by simp
  moreover have "look m = (look (store s))(i \<mapsto> ?t)" using lease_look [OF assms(1) id, of token] hit w t by simp
  moreover have "inv m" using lease_inv [OF assms(1) id, of token] w assms(2) by simp
  ultimately show ?thesis
    using w id assms(3) get_iff [OF assms(1), of i t] assms(2) by (intro exI [of _ m]) (simp add: Scheduler_RenewTaskLease_def)
qed

lemma cancel_ok:
  assumes "inv (store s)" and "look (store s) i = Some t" and "\<not> IsTerminal t"
  shows "\<exists>m. Scheduler_Cancel ops i now s = (None, (release i s)\<lparr>store := m, canceled := canceled s + 1\<rparr>)
     \<and> look m = (look (store s))(i \<mapsto> canceled_record now t) \<and> inv m"
proof -
  note t = look_id [OF assms(1,2)] look_valid [OF assms(1,2)] look_clone [OF assms(1,2)]
  obtain err m where w: "update_if_state ops i (Status t) (LeaseToken t) (canceled_record now t) (store s) = (err, m)"
    by fastforce
  have id: "ID (canceled_record now t) = i" using t by simp
  have hit: "cas_hit i (Status t) (LeaseToken t) (canceled_record now t) (look (store s))"
    using assms(2) t by (simp add: cas_hit_def)
  with write_ok [OF assms(1) id] w have "err = None" by (metis fst_conv)
  moreover have "look m = (look (store s))(i \<mapsto> canceled_record now t)"
    using write_look [OF assms(1) id, of "Status t" "LeaseToken t"] hit w t by simp
  moreover have "inv m" using write_inv [OF assms(1) id, of "Status t" "LeaseToken t"] w assms(2) by simp
  ultimately show ?thesis
    using w assms(3) get_iff [OF assms(1), of i t] assms(2) by (intro exI [of _ m]) (simp add: Scheduler_Cancel_def)
qed

lemma cancel_noop:
  assumes "inv (store s)" and "\<And>t. look (store s) i = Some t \<Longrightarrow> IsTerminal t"
  shows "Scheduler_Cancel ops i now s = (if look (store s) i = None then Some ErrNotFound else None, s)"
  using assms(2) by (auto simp: Scheduler_Cancel_def get [OF assms(1)] split: option.split)

lemma purge_ok:
  assumes "inv (store s)" and "look (store s) i = Some t" and "Status t \<noteq> StatusRunning"
  shows "\<exists>m. Scheduler_Purge ops i s = (None, s\<lparr>store := m\<rparr>) \<and> look m = (look (store s))(i := None) \<and> inv m"
proof -
  obtain err m where d: "Delete ops i (store s) = (err, m)" by fastforce
  have "delete_spec i (look (store s)) = Some ((look (store s))(i := None))" using assms(2) by (simp add: delete_spec_def)
  with d delete [OF assms(1), of i] delete_ok [OF assms(1), of i] inv_delete [OF assms(1), of i]
  have "err = None" "look m = (look (store s))(i := None)" "inv m" by (auto simp: meets_def)
  with d assms(3) get_iff [OF assms(1), of i t] assms(2) show ?thesis by (intro exI [of _ m]) (simp add: Scheduler_Purge_def)
qed

lemma purge_refused:
  assumes "inv (store s)" and "\<And>t. look (store s) i = Some t \<Longrightarrow> Status t = StatusRunning"
  shows "\<exists>e. Scheduler_Purge ops i s = (Some e, s)"
  using assms(2) by (auto simp: Scheduler_Purge_def get [OF assms(1)] split: option.split)

end

section \<open>Start and stop\<close>

lemma local_worker_id_inj: "local_worker_id now j = local_worker_id now k \<Longrightarrow> j = k"
  by (auto simp: local_worker_id_def dest: dec_nat_inj)

lemma local_worker_id_ne [simp]: "local_worker_id now k \<noteq> []"
  by (simp add: local_worker_id_def)

lemma local_worker_prefix [simp]: "HasPrefix (local_worker_id now k) ''local-''"
  by (simp add: HasPrefix_def local_worker_id_def)

context worker_store
begin

definition locals_registered :: "gtime \<Rightarrow> gtime \<Rightarrow> nat list \<Rightarrow> 'a scheduler \<Rightarrow> 'a scheduler \<Rightarrow> bool" where
  "locals_registered now x0 ks s s' \<longleftrightarrow> inv (store s') \<and> look (store s') = look (store s) \<and> leaseTTL s' = leaseTTL s \<and> nworkers s' = nworkers s
     \<and> started s' = started s \<and> stopped s' = stopped s
     \<and> (\<forall>k \<in> set ks. \<exists>x \<ge> x0. wlook (store s') (local_worker_id now k) = Some (live_worker (local_worker_id now k) x (leaseTTL s))
          \<and> map_of (workersByID s') (local_worker_id now k) = Some (live_worker (local_worker_id now k) x (leaseTTL s)))
     \<and> (\<forall>i. i \<notin> local_worker_id now ` set ks \<longrightarrow> wlook (store s') i = wlook (store s) i
          \<and> map_of (workersByID s') i = map_of (workersByID s) i)"

lemma register_locals_look:
  assumes "inv (store s)" and "distinct ks" and "mono clk"
  shows "locals_registered now (clk 0) ks s (register_locals ops now clk ks s)"
  using assms
proof (induction ks arbitrary: s clk)
  case Nil
  then show ?case by (simp add: locals_registered_def)
next
  case (Cons k ks)
  let ?i = "local_worker_id now k" and ?w = "live_worker (local_worker_id now k) (clk 0) (leaseTTL s)"
  obtain m where m: "snd (Scheduler_RegisterWorker ops ?i (clk 0) s) = s\<lparr>store := m, workersByID := AList.update ?i ?w (workersByID s)\<rparr>"
    "inv m" "look m = look (store s)" "wlook m = (wlook (store s))(?i \<mapsto> ?w)"
    using register_look [OF Cons.prems(1) local_worker_id_ne, of now k "clk 0"] by auto
  have k: "?i \<notin> local_worker_id now ` set ks" using Cons.prems(2) local_worker_id_inj by auto
  have le: "clk 0 \<le> later 1 clk 0" using Cons.prems(3) by (simp add: mono_def)
  let ?s = "snd (Scheduler_RegisterWorker ops ?i (clk 0) s)"
  have ih: "locals_registered now (later 1 clk 0) ks ?s (register_locals ops now (later 1 clk) ks ?s)"
    by (rule Cons.IH) (use m Cons.prems in \<open>auto simp: mono_def\<close>)
  show ?case
    unfolding locals_registered_def
  proof (intro conjI ballI allI impI, goal_cases)
    case (7 j)
    show ?case
    proof (cases "j = k")
      case True
      with ih k m show ?thesis by (intro exI [of _ "clk 0"]) (auto simp: locals_registered_def gmap_simps)
    next
      case False
      let ?s' = "register_locals ops now (later 1 clk) ks ?s" and ?j = "local_worker_id now j"
      from False 7 have "j \<in> set ks" by simp
      with ih have "\<exists>x \<ge> later 1 clk 0. wlook (store ?s') ?j = Some (live_worker ?j x (leaseTTL ?s))
          \<and> map_of (workersByID ?s') ?j = Some (live_worker ?j x (leaseTTL ?s))"
        unfolding locals_registered_def by blast
      then obtain x where x: "later 1 clk 0 \<le> x" "wlook (store ?s') ?j = Some (live_worker ?j x (leaseTTL ?s))"
        "map_of (workersByID ?s') ?j = Some (live_worker ?j x (leaseTTL ?s))" by blast
      then show ?thesis using le m(1) by (intro exI [of _ x]) simp
    qed
  qed (use ih m in \<open>auto simp: locals_registered_def gmap_simps\<close>)
qed

lemma locals_healthy:
  assumes "locals_registered now x0 ks s s'" and "inv (store u)" and "wlook (store u) = wlook (store s')"
    and "k \<in> set ks" and "x < x0 + leaseTTL s"
  shows "Scheduler_workerHealthy ops (local_worker_id now k) x u"
proof -
  have "\<exists>y \<ge> x0. wlook (store s') (local_worker_id now k) = Some (live_worker (local_worker_id now k) y (leaseTTL s))"
    using assms(1,4) unfolding locals_registered_def by blast
  with assms(3,5) show ?thesis by (force simp: healthy_iff [OF assms(2)] live_worker_def)
qed

lemma recover_workers:
  assumes "inv (store s)" and "now \<noteq> 0"
  shows "wlook (store (Scheduler_recoverRunning ops now s)) = wlook (store s)"
proof -
  obtain items where it: "List ops (store s) = Inr items" using list_total [OF assms(1)] by blast
  have "wlook (recover_step ops now t m) = wlook m" if "inv m" for t m
    using that by (simp add: recover_step_def keeps_workers)
  with fold_listed(3) [of "\<lambda>m. m" "store s" items "recover_step ops now" "\<lambda>t. Status t = StatusRunning"
      "retry_record ''scheduler restarted while task was running'' now" wlook "\<lambda>_ w. w", OF assms(1) it]
    recover_step_look [OF _ _ assms(2)]
  have "wlook (fold (recover_step ops now) items (store s)) = fold (\<lambda>_ w. w) (filter (\<lambda>t. Status t = StatusRunning) items) (wlook (store s))"
    by simp
  moreover have "fold (\<lambda>_ w. w) ts w = w" for ts :: "task list" and w :: "string \<rightharpoonup> worker" by (induction ts) auto
  ultimately show ?thesis using it by (simp add: Scheduler_recoverRunning_def listed_def)
qed

end

section \<open>Properties\<close>

text \<open>Starting a scheduler on a store that only it uses leaves no task behind: every task that was
  running in an earlier life becomes due for a retry, the other records stay, and the local workers are
  registered and healthy for the lease time.\<close>

theorem start_recovers:
  assumes "mem_inv (store s)" and "mono clk" and "0 < clk 0" and "\<not> (started s \<and> \<not> stopped s)"
  defines "s' \<equiv> Scheduler_Start memory_ops clk s" and "now \<equiv> clk (Suc (nat (nworkers s)))"
  shows "mem_inv (store s') \<and> started s' \<and> \<not> stopped s'
     \<and> mem_look (store s') i = (case mem_look (store s) i of
          None \<Rightarrow> None
        | Some t \<Rightarrow> Some (if Status t = StatusRunning
             then retry_record ''scheduler restarted while task was running'' now t else t))
     \<and> (\<forall>t. mem_look (store s') i = Some t \<longrightarrow> Status t \<noteq> StatusRunning)
     \<and> (\<forall>k < nat (nworkers s). \<forall>x < clk 1 + leaseTTL s.
          Scheduler_workerHealthy memory_ops (local_worker_id (clk 0) k) x s')"
proof -
  let ?n = "nat (nworkers s)" and ?s1 = "s\<lparr>stopped := False, started := True\<rparr>"
  let ?s2 = "register_locals memory_ops (clk 0) (later 1 clk) [0..<?n] ?s1"
  have reg: "memw.locals_registered (clk 0) (clk 1) [0..<?n] ?s1 ?s2"
    using memw.register_locals_look [of ?s1 "[0..<?n]" "later 1 clk" "clk 0"] assms(1,2) by (simp add: mono_def)
  have "clk 0 \<le> now" using assms(2) by (simp add: now_def mono_def)
  then have nz: "now \<noteq> 0" using assms(3) by simp
  have s': "s' = Scheduler_recoverRunning memory_ops now ?s2"
    using assms(4) by (auto simp: s'_def now_def Scheduler_Start_def Let_def)
  have inv2: "mem_inv (store ?s2)" using reg by (simp add: memw.locals_registered_def)
  note r = mem.recover_look [OF inv2 nz, folded s'] memw.recover_workers [OF inv2 nz, folded s']
  have "Scheduler_workerHealthy memory_ops (local_worker_id (clk 0) k) x s'" if "k < ?n" "x < clk 1 + leaseTTL s" for k x
    using memw.locals_healthy [OF reg r(1,3)] that by simp
  moreover have "started s'" "\<not> stopped s'"
    using reg by (simp_all add: s' memw.locals_registered_def Scheduler_recoverRunning_def)
  moreover have "mem_look (store ?s2) = mem_look (store s)" using reg by (simp add: memw.locals_registered_def)
  ultimately show ?thesis using r(1,2) by (cases "mem_look (store s) i") auto
qed

theorem start_recovers_witness:
  "mem_look (store (Scheduler_Start memory_ops (\<lambda>_. 7) leased)) ''r''
     = Some (retry_record ''scheduler restarted while task was running'' 7 leased_task)"
proof -
  have "\<not> (started leased \<and> \<not> stopped leased)" by code_simp
  from start_recovers [OF leased_inv _ _ this, of "\<lambda>_. 7" "''r''"] show ?thesis by (simp add: mono_def)
qed

text \<open>Stopping takes back the tasks of the scheduler's own workers, for a retry without waiting for
  their leases; tasks of external workers keep running under theirs. The contexts of all local
  executions are cancelled.\<close>

theorem stop_requeues_local:
  assumes "mem_inv (store s)" and "now \<noteq> 0" and "started s" and "\<not> stopped s"
  defines "s' \<equiv> Scheduler_Stop memory_ops now s"
  shows "mem_inv (store s') \<and> stopped s' \<and> \<not> started s' \<and> (\<forall>c < nextCtx s. c \<in> set (canceledCtx s'))
     \<and> mem_look (store s') i = (case mem_look (store s) i of
          None \<Rightarrow> None
        | Some t \<Rightarrow> Some (if Status t = StatusRunning \<and> Scheduler_isLocalWorker (WorkerID t) s
             then retry_record ''scheduler stopped while task was running'' now t else t))"
proof -
  let ?s = "s\<lparr>stopped := True, canceledCtx := [0..<nextCtx s] @ canceledCtx s\<rparr>"
  have inv: "mem_inv (store ?s)" using assms(1) by simp
  have loc: "Scheduler_isLocalWorker w ?s = Scheduler_isLocalWorker w s" for w
    by (simp add: Scheduler_isLocalWorker_def)
  have ctx: "canceledCtx (Scheduler_requeueRunningOnStop memory_ops now ?s) = canceledCtx ?s"
    by (simp add: Scheduler_requeueRunningOnStop_def mem.requeue_fold)
  have s': "s' = (Scheduler_requeueRunningOnStop memory_ops now ?s)\<lparr>stopped := True, started := False\<rparr>"
    using assms(3,4) by (simp add: s'_def Scheduler_Stop_def Scheduler_loop_exit_def Let_def)
  show ?thesis
    using mem.requeue_look [OF inv assms(2)] ctx by (simp add: s' loc split: option.split)
qed

theorem stop_requeues_local_witness:
  "\<exists>t. mem_look (store (Scheduler_Stop memory_ops 7 (leased\<lparr>started := True\<rparr>))) ''r'' = Some t \<and> Status t = StatusRunning"
proof -
  have "\<not> Scheduler_isLocalWorker ''w'' (leased\<lparr>started := True\<rparr>)" by code_simp
  moreover have "\<not> stopped (leased\<lparr>started := True\<rparr>)" by code_simp
  moreover have "mem_inv (store (leased\<lparr>started := True\<rparr>))" by simp
  ultimately show ?thesis using stop_requeues_local [of "leased\<lparr>started := True\<rparr>" 7 "''r''"] by simp
qed

text \<open>C11: a worker that heartbeats keeps its tasks: the heartbeat moves the end of the leases of exactly its
  own running tasks to one lease time from now, and no reaper running before that instant takes one of them
  away. It also keeps the worker healthy until then. A heartbeat of an unknown worker changes nothing.\<close>

theorem heartbeat_keeps_tasks:
  assumes "mem_inv (store s)" and "Scheduler_Heartbeat memory_ops i now s = (res, s')"
  shows "if mem_wlook (store s) i = None then (\<exists>e. res = Inl e) \<and> s' = s
     else res = Inr (live_worker i now (leaseTTL s)) \<and> mem_inv (store s')
       \<and> (\<forall>x < now + leaseTTL s. Scheduler_workerHealthy memory_ops i x s')
       \<and> (\<forall>k. mem_look (store s') k = map_option (extended i (now + leaseTTL s)) (mem_look (store s) k))
       \<and> (\<forall>clk k t. clk 1 \<noteq> 0 \<and> clk 1 < now + leaseTTL s \<and> mem_look (store s) k = Some t
            \<and> Status t = StatusRunning \<and> WorkerID t = i \<longrightarrow>
            mem_look (store (Scheduler_reapExpired memory_ops clk s')) k = Some (t\<lparr>LeaseUntil := Some (now + leaseTTL s)\<rparr>))"
proof (cases "mem_wlook (store s) i = None")
  case True
  with memw.heartbeat_err [OF assms(1) True, of now] assms(2) show ?thesis by auto
next
  case False
  then obtain m: "res = Inr (live_worker i now (leaseTTL s))" "mem_inv (store s')"
      "mem_wlook (store s') = (mem_wlook (store s))(i \<mapsto> live_worker i now (leaseTTL s))"
      "mem_look (store s') = (\<lambda>k. map_option (extended i (now + leaseTTL s)) (mem_look (store s) k))"
    using memw.heartbeat_look [OF assms(1) False, of now] assms(2) by auto
  have "mem_look (store (Scheduler_reapExpired memory_ops clk s')) k = Some (t\<lparr>LeaseUntil := Some (now + leaseTTL s)\<rparr>)"
    if "clk 1 \<noteq> 0" "clk 1 < now + leaseTTL s" "mem_look (store s) k = Some t" "Status t = StatusRunning" "WorkerID t = i"
    for clk k t
    using that mem.reap_look(2) [of s' clk, OF m(2)] m(4) by (simp add: extended_def lease_lapsed_def)
  moreover have "Scheduler_workerHealthy memory_ops i x s'" if "x < now + leaseTTL s" for x
    using that m(3) by (simp add: memw.healthy_iff [OF m(2)] live_worker_def)
  ultimately show ?thesis using False m by simp
qed

theorem heartbeat_keeps_tasks_witness:
  "\<exists>s'. Scheduler_Heartbeat memory_ops ''w'' 7 leased = (Inr (live_worker ''w'' 7 30000000000), s')
     \<and> mem_look (store (Scheduler_reapExpired memory_ops (\<lambda>_. 50) s')) ''r'' = Some (leased_task\<lparr>LeaseUntil := Some 30000000007\<rparr>)"
proof -
  obtain res s' where h: "Scheduler_Heartbeat memory_ops ''w'' 7 leased = (res, s')" by fastforce
  have "leaseTTL leased = 30000000000" by code_simp
  moreover have "mem_wlook (store leased) ''w'' \<noteq> None" by (simp add: mem_wlook_def leased_def demo_store_def)
  moreover have "50 < (7 :: gtime) + 30000000000" by simp
  ultimately show ?thesis
    using heartbeat_keeps_tasks [OF leased_inv h] h by (auto simp: all_conj_distrib)
qed

text \<open>A renewal is granted exactly under a live lease; it then changes nothing but the end of that
  lease, which becomes one lease time from now.\<close>

theorem renew_exact:
  assumes "mem_inv (store s)"
  shows "if \<exists>t. mem_look (store s) i = Some t \<and> validLease t wid token (clk 0)
     then \<exists>t m. mem_look (store s) i = Some t \<and> Scheduler_RenewTaskLease memory_ops wid i token clk s
            = (Inr (t\<lparr>LeaseUntil := Some (clk 1 + leaseTTL s)\<rparr>), s\<lparr>store := m\<rparr>)
          \<and> mem_look m = (mem_look (store s))(i \<mapsto> t\<lparr>LeaseUntil := Some (clk 1 + leaseTTL s)\<rparr>) \<and> mem_inv m
     else \<exists>e. Scheduler_RenewTaskLease memory_ops wid i token clk s = (Inl e, s)"
  using mem.renew_ok [OF assms, of i _ wid token clk] mem.complete_refused(2) [OF assms, of i wid token clk] by auto

theorem renew_exact_witness:
  "\<exists>t s'. Scheduler_RenewTaskLease memory_ops ''w'' ''r'' ''tok'' (\<lambda>_. 7) leased = (Inr t, s')"
proof -
  have "validLease leased_task ''w'' ''tok'' 7" by (simp add: validLease_def)
  then show ?thesis using renew_exact [OF leased_inv, of "''r''" "''w''" "''tok''" "\<lambda>_. 7"] by auto
qed

text \<open>C13: cancelling reports an unknown id, does nothing to a task in a terminal state, and turns any other
  task into a cancelled one for good: its reservation is released, a local execution's context is
  cancelled, the counter grows, and no report or renewal for the task is accepted any more.\<close>

theorem cancel_ends_task:
  assumes "mem_inv (store s)" and "Scheduler_Cancel memory_ops i now s = (err, s')"
  shows "case mem_look (store s) i of
      None \<Rightarrow> err = Some ErrNotFound \<and> s' = s
    | Some t \<Rightarrow> err = None \<and> (if IsTerminal t then s' = s
        else mem_inv (store s') \<and> mem_look (store s') = (mem_look (store s))(i \<mapsto> canceled_record now t)
          \<and> map_of (running s') = (map_of (running s))(i := None) \<and> canceled s' = canceled s + 1
          \<and> (\<forall>c. map_of (running s) i = Some (Some c) \<longrightarrow> c \<in> set (canceledCtx s'))
          \<and> (\<forall>wid token failure res clk.
               \<exists>e. Scheduler_CompleteTaskWithResult memory_ops wid i token failure res clk s' = (Some e, s')))"
proof (cases "mem_look (store s) i")
  case None
  with assms mem.cancel_noop [OF assms(1), of i now] show ?thesis by simp
next
  case (Some t)
  show ?thesis
  proof (cases "IsTerminal t")
    case True
    with Some assms mem.cancel_noop [OF assms(1), of i now] show ?thesis by simp
  next
    case False
    then obtain m where m: "Scheduler_Cancel memory_ops i now s = (None, (release i s)\<lparr>store := m, canceled := canceled s + 1\<rparr>)"
      "mem_look m = (mem_look (store s))(i \<mapsto> canceled_record now t)" "mem_inv m"
      using mem.cancel_ok [OF assms(1) Some] by blast
    have "\<not> validLease u wid token x" if "mem_look m i = Some u" for u wid token x
      using that m(2) by (auto simp: validLease_def)
    with m assms(2) mem.complete_refused(1) [of s' i] Some False show ?thesis
      by (auto simp: release_def call_cancel_def gmap_simps split: option.split)
  qed
qed

theorem cancel_ends_task_witness:
  "\<exists>s'. Scheduler_Cancel memory_ops ''r'' 7 leased = (None, s')
     \<and> mem_look (store s') ''r'' = Some (canceled_record 7 leased_task)"
proof -
  obtain err s' where c: "Scheduler_Cancel memory_ops ''r'' 7 leased = (err, s')" by fastforce
  have "\<not> IsTerminal leased_task" by (simp add: IsTerminal_def)
  with cancel_ends_task [OF leased_inv c] c show ?thesis by simp
qed

text \<open>A task that was failed because of a dependency while it had attempts left counts as not
  terminal, so a later cancellation rewrites its outcome from failed to cancelled.\<close>

theorem cancel_rewrites_failed:
  assumes "mem_inv (store s)" and "mem_look (store s) i = Some (failed_record reason x t)"
    and "Attempts t < MaxAttempts (Retry t)"
  shows "mem_look (store (snd (Scheduler_Cancel memory_ops i now s))) i = Some (canceled_record now (failed_record reason x t))"
proof -
  have "\<not> IsTerminal (failed_record reason x t)" using assms(3) by (simp add: IsTerminal_def failed_record_def)
  from mem.cancel_ok [OF assms(1,2) this, of now] show ?thesis by auto
qed

theorem cancel_rewrites_failed_witness:
  "\<exists>t. mem_look (store (snd (Scheduler_Cancel memory_ops ''p'' 8
     (leased\<lparr>store := Scheduler_failUnreadyTask memory_ops (job ''p'' [] StatusPending) ''gone'' 7 (store leased)\<rparr>)))) ''p'' = Some t
     \<and> Status t = StatusCanceled"
proof -
  let ?t = "job ''p'' [] StatusPending"
  let ?m = "Scheduler_failUnreadyTask memory_ops ?t ''gone'' 7 (store leased)"
  have p: "mem_look (store leased) (ID ?t) = Some ?t" by simp
  have "mem_inv ?m" "mem_look ?m ''p'' = Some (failed_record ''gone'' 7 ?t)"
    using mem.fail_look [OF leased_inv p, of "''gone''" 7] by simp_all
  moreover have "Attempts ?t < MaxAttempts (Retry ?t)" by (simp add: job_def zero_task_def)
  ultimately show ?thesis using cancel_rewrites_failed [of "leased\<lparr>store := ?m\<rparr>" "''p''" "''gone''" 7 ?t 8] by simp
qed

text \<open>A running task is never purged; any other stored task is removed from the store, and nothing else
  changes.\<close>

theorem purge_exact:
  assumes "mem_inv (store s)"
  shows "case mem_look (store s) i of
      None \<Rightarrow> Scheduler_Purge memory_ops i s = (Some ErrNotFound, s)
    | Some t \<Rightarrow> if Status t = StatusRunning then \<exists>e. Scheduler_Purge memory_ops i s = (Some e, s)
        else \<exists>m. Scheduler_Purge memory_ops i s = (None, s\<lparr>store := m\<rparr>)
               \<and> mem_look m = (mem_look (store s))(i := None) \<and> mem_inv m"
  using mem.purge_ok [OF assms, of i] mem.purge_refused [OF assms, of i]
  by (auto simp: Scheduler_Purge_def mem_get [OF assms] split: option.split)

theorem purge_exact_witness: "\<exists>m. Scheduler_Purge memory_ops ''p'' leased = (None, leased\<lparr>store := m\<rparr>)"
  using purge_exact [OF leased_inv, of "''p''"] by (auto simp: job_def zero_task_def)

end
