(* ===== verification/Dispatch.thy ===== *)
theory Dispatch
  imports Lifecycle
begin

text \<open>
  The dispatch tick and the local workers: what a tick puts on the channel, the bound of the channel,
  the rollback when it is full, and the execution of a queued task.
\<close>

lemma set_Due: "set (Due items now) = {t \<in> set items. is_due now t}"
  using mset_SliceStable [of due_less "filter (is_due now) items"]
  by (metis Due_def mset_eq_setD set_filter)

lemma distinct_Due: "distinct (map ID items) \<Longrightarrow> distinct (map ID (Due items now))"
  using mset_SliceStable [of due_less "filter (is_due now) items"]
  by (metis Due_def distinct_map_filter mset_eq_imp_distinct_iff mset_map)

section \<open>One candidate\<close>

text \<open>The effect of one round on the queue, the reservations and the candidate's own record.\<close>

definition dispatched :: "(string \<rightharpoonup> task) \<Rightarrow> (string \<rightharpoonup> task) \<Rightarrow> string list \<Rightarrow> task \<Rightarrow> task \<Rightarrow> bool" where
  "dispatched m0 m names t0 t \<longleftrightarrow> (\<exists>wid x ttl. t = claimed_record wid x ttl (lease_token x (ID t0)) t0)
     \<and> m (ID t) = Some t \<and> deps_ok m0 t0 \<and> Name t0 \<in> set names"

context local_store
begin

definition dispatch_effect :: "task \<Rightarrow> 'a scheduler \<Rightarrow> 'a scheduler \<Rightarrow> bool" where
  "dispatch_effect t s s' \<longleftrightarrow> inv (store s') \<and> handlers s' = handlers s \<and> nworkers s' = nworkers s
     \<and> (\<forall>j. j \<noteq> ID t \<longrightarrow> look (store s') j = look (store s) j)
     \<and> (queue s' = queue s \<and> map_of (running s') = map_of (running s)
          \<and> (\<exists>u. look (store s') (ID t) = Some u \<and> Status u \<noteq> StatusRunning \<and> Status u \<noteq> StatusSuccess)
        \<or> (\<exists>new. queue s' = queue s @ [new] \<and> ID new = ID t
             \<and> dispatched (look (store s)) (look (store s')) (handlers s) t new
             \<and> int (length (queue s)) < nworkers s * 2
             \<and> map_of (running s) (ID t) = None \<and> map_of (running s') = (map_of (running s))(ID t \<mapsto> None)))"

lemma dispatch_skip:
  assumes "inv (store s)" and "look (store s) (ID t) = Some t" and "is_due now t"
  shows "dispatch_effect t s s"
  using assms by (auto simp: dispatch_effect_def is_due_def)

lemma dispatch_fail:
  assumes "inv (store s)" and "look (store s) (ID t) = Some t"
  shows "dispatch_effect t s (s\<lparr>store := Scheduler_failUnreadyTask ops t e x (store s)\<rparr>)"
  using fail_look [OF assms, of e x] by (simp add: dispatch_effect_def)

lemma claimed_write:
  assumes "inv m" and "look m (ID t) = Some t" and "Attempts t \<noteq> 2 ^ 63 - 1"
    and w: "update_if_state ops (ID t) (Status t) (LeaseToken t) (claimed_record wid x ttl tok t) m = (err, m')"
  shows "err = None" and "look m' = (look m)(ID t \<mapsto> claimed_record wid x ttl tok t)" and "inv m'"
proof -
  let ?new = "claimed_record wid x ttl tok t"
  have new: "static ?new = static t" "Validate ?new = None" "clone ?new = ?new"
    using look_valid [OF assms(1,2)] look_clone [OF assms(1,2)] assms(3) by simp_all
  have "cas_hit (ID t) (Status t) (LeaseToken t) ?new (look m)" using assms(2) new(2) by (simp add: cas_hit_def)
  with write_ok [OF assms(1) static_ID [OF new(1)], of "Status t" "LeaseToken t"] w show "err = None" by simp
  show "look m' = (look m)(ID t \<mapsto> ?new)" "inv m'" using write_hit [OF assms(1,2) new] w by simp_all
qed

lemma claimed_write_full:
  assumes "inv m" and "look m (ID t) = Some t" and "Attempts t = 2 ^ 63 - 1"
    and w: "update_if_state ops (ID t) (Status t) (LeaseToken t) (claimed_record wid x ttl tok t) m = (err, m')"
  shows "err \<noteq> None" and "look m' = look m" and "inv m'"
proof -
  let ?new = "claimed_record wid x ttl tok t"
  have id: "ID ?new = ID t" by simp
  have "Validate ?new \<noteq> None" using assms(3) by (simp add: Validate_None_iff inc64_def)
  then have miss: "\<not> cas_hit (ID t) (Status t) (LeaseToken t) ?new (look m)" by (simp add: cas_hit_def)
  show "err \<noteq> None" using write_miss [OF assms(1) id miss] w by simp
  show "look m' = look m" using write_look [OF assms(1) id, of "Status t" "LeaseToken t"] miss w by simp
  show "inv m'" using write_inv [OF assms(1) id, of "Status t" "LeaseToken t"] w assms(2) by simp
qed

lemma rollback_write:
  assumes "inv m" and "look m (ID t) = Some t" and "Status t = StatusRunning" and "1 \<le> Attempts t" "Validate t = None"
  shows "look (snd (update_if_state ops (ID t) StatusRunning (LeaseToken t) (rollback_record t) m))
           = (look m)(ID t \<mapsto> rollback_record t)"
    and "inv (snd (update_if_state ops (ID t) StatusRunning (LeaseToken t) (rollback_record t) m))"
proof -
  have "Validate (rollback_record t) = None"
    using assms(4,5) by (simp add: Validate_None_iff rollback_record_def dec64_def)
  from write_hit [OF assms(1,2) static_records(5) this] look_clone [OF assms(1,2)] assms(3)
  show "look (snd (update_if_state ops (ID t) StatusRunning (LeaseToken t) (rollback_record t) m))
           = (look m)(ID t \<mapsto> rollback_record t)"
    "inv (snd (update_if_state ops (ID t) StatusRunning (LeaseToken t) (rollback_record t) m))" by simp_all
qed

lemma dispatch_commit:
  assumes inv: "inv (store s)" and t: "look (store s) (ID t) = Some t" and due: "is_due now t"
    and ok: "Scheduler_dependenciesReady ops t (store s) = (True, [])" "deps_ok (look (store s)) t"
    and free: "map_of (running s) (ID t) = None" "Name t \<in> set (handlers s)"
  shows "dispatch_effect t s (dispatch_step ops clk t s)"
proof -
  let ?r = "AList.update (ID t) None (running s)"
  let ?new = "claimed_record (Scheduler_pickWorker (clk 1) (s\<lparr>running := ?r\<rparr>)) (clk 0) (leaseTTL s) (lease_token (clk 0) (ID t)) t"
  let ?tok = "lease_token (clk 0) (ID t)"
  obtain err m where w: "update_if_state ops (ID t) (Status t) (LeaseToken t) ?new (store s) = (err, m)" by fastforce
  show ?thesis
  proof (cases "Attempts t = 2 ^ 63 - 1")
    case True
    note c = claimed_write_full [OF inv t True w]
    have "dispatch_step ops clk t s = s\<lparr>running := AList.delete (ID t) ?r, store := m\<rparr>"
      using ok(1) free w c(1) by (auto simp: dispatch_step_def Let_def)
    then show ?thesis using c(2,3) t due free by (auto simp: dispatch_effect_def is_due_def gmap_simps fun_upd_idem)
  next
    case False
    note c = claimed_write [OF inv t False w]
    let ?s3 = "Scheduler_observeQueueLatency ?new (clk 2) (s\<lparr>running := ?r, store := m\<rparr>)"
    have step: "dispatch_step ops clk t s = (if int (length (queue s)) < nworkers s * 2 then ?s3\<lparr>queue := queue s @ [?new]\<rparr>
        else ?s3\<lparr>store := snd (update_if_state ops (ID t) StatusRunning ?tok (rollback_record ?new) m),
                 running := AList.delete (ID t) ?r\<rparr>)"
      using ok(1) free w c(1) by (auto simp: dispatch_step_def Let_def)
    show ?thesis
    proof (cases "int (length (queue s)) < nworkers s * 2")
      case True
      have "dispatched (look (store s)) (look m) (handlers s) t ?new"
        using c(2) ok(2) free by (auto simp: dispatched_def)
      with step True c free show ?thesis by (auto simp: dispatch_effect_def gmap_simps)
    next
      case full: False
      have v: "Validate ?new = None" "1 \<le> Attempts ?new" using look_valid [OF inv t] False by (simp_all add: inc64_below Validate_None_iff)
      have l: "look m (ID ?new) = Some ?new" using c(2) by simp
      note rb = rollback_write [OF c(3) l _ v(2,1)]
      from step full rb c(2) free show ?thesis by (auto simp: dispatch_effect_def gmap_simps fun_upd_idem)
    qed
  qed
qed

lemma dispatch_step_effect:
  assumes "inv (store s)" and "look (store s) (ID t) = Some t" and "is_due now t"
  shows "dispatch_effect t s (dispatch_step ops clk t s)"
proof (rule ready_cases [OF assms(1), of t])
  fix e
  assume "Scheduler_dependenciesReady ops t (store s) = (False, e)"
  with dispatch_skip [OF assms] dispatch_fail [OF assms(1,2), of e "clk 0"] show ?thesis
    by (cases "e = []") (simp_all add: dispatch_step_def)
next
  assume ok: "Scheduler_dependenciesReady ops t (store s) = (True, [])" "deps_ok (look (store s)) t"
  show ?thesis
  proof (cases "map_of (running s) (ID t) = None \<and> Name t \<in> set (handlers s)")
    case True
    with dispatch_commit [OF assms ok] show ?thesis by blast
  next
    case False
    then have "dispatch_step ops clk t s = s" using ok by (auto simp: dispatch_step_def)
    with dispatch_skip [OF assms] show ?thesis by simp
  qed
qed

section \<open>The whole tick\<close>

definition tick_effect :: "task list \<Rightarrow> 'a scheduler \<Rightarrow> 'a scheduler \<Rightarrow> bool" where
  "tick_effect items s s' \<longleftrightarrow> inv (store s') \<and> handlers s' = handlers s \<and> nworkers s' = nworkers s
     \<and> (\<forall>j. j \<notin> ID ` set items \<longrightarrow> look (store s') j = look (store s) j)
     \<and> (\<forall>t. deps_ok (look (store s')) t \<longleftrightarrow> deps_ok (look (store s)) t)
     \<and> (\<exists>ts. queue s' = queue s @ ts \<and> (ts \<noteq> [] \<longrightarrow> int (length (queue s')) \<le> nworkers s * 2)
          \<and> (\<forall>new \<in> set ts. \<exists>t \<in> set items. ID new = ID t \<and> dispatched (look (store s)) (look (store s')) (handlers s) t new
               \<and> map_of (running s) (ID t) = None \<and> map_of (running s') (ID t) = Some None)
          \<and> (\<forall>j. j \<notin> ID ` set ts \<longrightarrow> map_of (running s') j = map_of (running s) j))"

lemma effect_deps:
  assumes "dispatch_effect t s s'" and "look (store s) (ID t) = Some t" and "is_due now t"
  shows "deps_ok (look (store s')) u \<longleftrightarrow> deps_ok (look (store s)) u"
proof -
  have "(\<exists>v. look (store s') d = Some v \<and> Status v = StatusSuccess) \<longleftrightarrow> (\<exists>v. look (store s) d = Some v \<and> Status v = StatusSuccess)" for d
  proof (cases "d = ID t")
    case True
    with assms show ?thesis
      by (auto simp: dispatch_effect_def dispatched_def dest: not_due_success)
  next
    case False
    with assms(1) show ?thesis by (simp add: dispatch_effect_def)
  qed
  then show ?thesis by (simp add: deps_ok_def)
qed

lemma tick_item:
  assumes "dispatched (look (store s1)) m (handlers s1) t new" and "handlers s1 = handlers s"
    and "\<And>u. deps_ok (look (store s1)) u \<longleftrightarrow> deps_ok (look (store s)) u"
  shows "dispatched (look (store s)) m (handlers s) t new"
  using assms by (simp add: dispatched_def)

lemma tick_cons:
  assumes e: "dispatch_effect t s s1" and ih: "tick_effect ts s1 s2" and fresh: "ID t \<notin> ID ` set ts"
    and deps: "\<And>u. deps_ok (look (store s1)) u \<longleftrightarrow> deps_ok (look (store s)) u"
  shows "tick_effect (t # ts) s s2"
proof -
  from ih obtain qs where q: "queue s2 = queue s1 @ qs" "qs \<noteq> [] \<longrightarrow> int (length (queue s2)) \<le> nworkers s1 * 2"
    and new: "\<And>n. n \<in> set qs \<Longrightarrow> \<exists>u \<in> set ts. ID n = ID u \<and> dispatched (look (store s1)) (look (store s2)) (handlers s1) u n
        \<and> map_of (running s1) (ID u) = None \<and> map_of (running s2) (ID u) = Some None"
    and run: "\<And>j. j \<notin> ID ` set qs \<Longrightarrow> map_of (running s2) j = map_of (running s1) j"
    unfolding tick_effect_def by blast
  have frame: "inv (store s2)" "handlers s1 = handlers s" "nworkers s1 = nworkers s" "handlers s2 = handlers s"
    "nworkers s2 = nworkers s" "\<And>u. deps_ok (look (store s2)) u \<longleftrightarrow> deps_ok (look (store s)) u"
    "\<And>j. j \<notin> ID ` set (t # ts) \<Longrightarrow> look (store s2) j = look (store s) j"
    and tl: "look (store s2) (ID t) = look (store s1) (ID t)"
    using e ih fresh deps by (auto simp: tick_effect_def dispatch_effect_def)
  have old: "ID t \<notin> ID ` set qs" using new fresh by (metis (no_types, lifting) image_iff)
  have r1: "map_of (running s1) j = map_of (running s) j" if "j \<noteq> ID t" for j
    using e that by (auto simp: dispatch_effect_def)
  have new': "\<exists>u \<in> set (t # ts). ID n = ID u \<and> dispatched (look (store s)) (look (store s2)) (handlers s) u n
        \<and> map_of (running s) (ID u) = None \<and> map_of (running s2) (ID u) = Some None" if "n \<in> set qs" for n
    using new [OF that] tick_item [OF _ frame(2) deps] r1 fresh by (metis image_eqI list.set_intros(2))
  from e consider (same) "queue s1 = queue s" "map_of (running s1) = map_of (running s)"
    | (put) n where "queue s1 = queue s @ [n]" "ID n = ID t" "dispatched (look (store s)) (look (store s1)) (handlers s) t n"
        "int (length (queue s)) < nworkers s * 2" "map_of (running s) (ID t) = None" "map_of (running s1) = (map_of (running s))(ID t \<mapsto> None)"
    unfolding dispatch_effect_def by blast
  then show ?thesis
  proof cases
    case same
    then show ?thesis unfolding tick_effect_def using frame q new' run by (intro conjI exI [of _ qs]) auto
  next
    case put
    have "dispatched (look (store s)) (look (store s2)) (handlers s) t n" using put(2,3) tl by (simp add: dispatched_def)
    moreover have "map_of (running s2) (ID t) = Some None" using run [OF old] put(6) by simp
    ultimately have "\<exists>u \<in> set (t # ts). ID k = ID u \<and> dispatched (look (store s)) (look (store s2)) (handlers s) u k
        \<and> map_of (running s) (ID u) = None \<and> map_of (running s2) (ID u) = Some None" if "k \<in> set (n # qs)" for k
      using that new' put(2,5) by auto
    moreover have "int (length (queue s2)) \<le> nworkers s * 2" using q put(1,4) frame(3) by (cases "qs = []") auto
    moreover have "\<And>j. j \<notin> ID ` set (n # qs) \<Longrightarrow> map_of (running s2) j = map_of (running s) j"
      using run put(2,6) by auto
    ultimately show ?thesis
      unfolding tick_effect_def using frame q(1) put(1) by (intro conjI exI [of _ "n # qs"]) auto
  qed
qed

lemma dispatch_loop_effect:
  assumes "inv (store s)" and "distinct (map ID items)"
    and "\<And>t. t \<in> set items \<Longrightarrow> look (store s) (ID t) = Some t \<and> is_due now t"
  shows "tick_effect items s (dispatch_loop ops clk items s)"
  using assms
proof (induction items arbitrary: s clk)
  case Nil
  then show ?case by (simp add: tick_effect_def)
next
  case (Cons t ts)
  let ?s1 = "dispatch_step ops clk t s" and ?s2 = "dispatch_loop ops (later 3 clk) ts (dispatch_step ops clk t s)"
  have t: "look (store s) (ID t) = Some t" "is_due now t" using Cons.prems(3) by auto
  have fresh: "ID t \<notin> ID ` set ts" using Cons.prems(2) by auto
  have eff: "dispatch_effect t s ?s1" by (rule dispatch_step_effect [OF Cons.prems(1) t])
  have look1: "look (store ?s1) j = look (store s) j" if "j \<noteq> ID t" for j using eff that by (simp add: dispatch_effect_def)
  have keep: "look (store ?s1) (ID u) = Some u \<and> is_due now u" if "u \<in> set ts" for u
    using that look1 [of "ID u"] Cons.prems(3) [of u] fresh by (metis image_eqI list.set_intros(2))
  have ih: "tick_effect ts ?s1 ?s2"
    by (rule Cons.IH [OF _ _ keep]) (use eff Cons.prems(2) in \<open>auto simp: dispatch_effect_def\<close>)
  show ?case using tick_cons [OF eff ih fresh effect_deps [OF eff t]] by simp
qed

lemma reap_deps:
  assumes "inv (store s)" and "clk 1 \<noteq> 0"
  shows "deps_ok (look (store (Scheduler_reapExpired ops clk s))) t \<longleftrightarrow> deps_ok (look (store s)) t"
proof -
  have "(\<exists>v. look (store (Scheduler_reapExpired ops clk s)) d = Some v \<and> Status v = StatusSuccess)
      \<longleftrightarrow> (\<exists>v. look (store s) d = Some v \<and> Status v = StatusSuccess)" for d
    using reap_look(2) [of s clk, OF assms] by (cases "look (store s) d") (auto simp: lease_lapsed_def)
  then show ?thesis by (simp add: deps_ok_def)
qed

lemma reap_frame [simp]:
  "queue (Scheduler_reapExpired ops clk s) = queue s" "nworkers (Scheduler_reapExpired ops clk s) = nworkers s"
  "handlers (Scheduler_reapExpired ops clk s) = handlers s"
proof -
  have step: "queue (reap_step ops x t s) = queue s \<and> nworkers (reap_step ops x t s) = nworkers s
      \<and> handlers (reap_step ops x t s) = handlers s" for x t s
    by (auto simp: reap_step_def Let_def split: option.split sum.split prod.split)
  have "queue (fold (reap_step ops x) items s) = queue s \<and> nworkers (fold (reap_step ops x) items s) = nworkers s
      \<and> handlers (fold (reap_step ops x) items s) = handlers s" for x items
    by (induction items arbitrary: s) (simp_all add: step)
  then show "queue (Scheduler_reapExpired ops clk s) = queue s" "nworkers (Scheduler_reapExpired ops clk s) = nworkers s"
    "handlers (Scheduler_reapExpired ops clk s) = handlers s"
    by (simp_all add: Scheduler_reapExpired_def split: sum.split)
qed

lemma dispatch_effect_tick:
  assumes "inv (store s)" and "clk 1 \<noteq> 0" and "leaderGate s \<noteq> Some False"
  shows "\<exists>items. tick_effect items (Scheduler_reapExpired ops clk s) (Scheduler_dispatch ops clk s)"
proof -
  let ?s1 = "Scheduler_reapExpired ops clk s"
  have inv: "inv (store ?s1)" using reap_look(1) [of s clk, OF assms(1,2)] .
  obtain items where it: "List ops (store ?s1) = Inr items" using list_total [OF inv] by blast
  have "tick_effect (Due items (clk 2)) ?s1 (dispatch_loop ops (later 3 clk) (Due items (clk 2)) ?s1)"
    by (rule dispatch_loop_effect [OF inv distinct_Due [OF list_distinct [OF inv it]]])
      (use in_list_iff [OF inv it] in \<open>auto simp: set_Due\<close>)
  then show ?thesis
    using assms(3) it by (auto simp: Scheduler_dispatch_def Let_def Scheduler_dueTasks_def no_scanner)
qed

end

section \<open>Properties\<close>



text \<open>When every local worker is busy the tick undoes its claim: the task is pending again with its old
  attempt count and no reservation, but the stored record keeps the lease of the undone attempt.\<close>

theorem dispatch_full_keeps_lease:
  assumes "mem_inv (store s)" and "mem_look (store s) (ID t) = Some t"
    and "deps_ok (mem_look (store s)) t" and "map_of (running s) (ID t) = None" and "Name t \<in> set (handlers s)"
    and "Attempts t \<noteq> 2 ^ 63 - 1" and "nworkers s * 2 \<le> int (length (queue s))"
  shows "\<exists>u. mem_look (store (dispatch_step memory_ops clk t s)) (ID t) = Some u
     \<and> Status u = StatusPending \<and> Attempts u = Attempts t
     \<and> LeaseToken u = lease_token (clk 0) (ID t) \<and> LeaseUntil u = Some (clk 0 + leaseTTL s)
     \<and> queue (dispatch_step memory_ops clk t s) = queue s
     \<and> map_of (running (dispatch_step memory_ops clk t s)) = map_of (running s)"
proof -
  let ?r = "AList.update (ID t) None (running s)"
  let ?new = "claimed_record (Scheduler_pickWorker (clk 1) (s\<lparr>running := ?r\<rparr>)) (clk 0) (leaseTTL s) (lease_token (clk 0) (ID t)) t"
  let ?s' = "dispatch_step memory_ops clk t s"
  obtain err m where w: "update_if_state memory_ops (ID t) (Status t) (LeaseToken t) ?new (store s) = (err, m)" by fastforce
  note c = mem.claimed_write [OF assms(1,2,6) w]
  have v: "Validate ?new = None" "1 \<le> Attempts ?new"
    using mem.look_valid [OF assms(1,2)] assms(6) by (simp_all add: inc64_below Validate_None_iff)
  have l: "mem_look m (ID ?new) = Some ?new" using c(2) by simp
  have ready: "Scheduler_dependenciesReady memory_ops t (store s) = (True, [])" using mem.ready_iff [OF assms(1)] assms(3) by blast
  have "store ?s' = snd (update_if_state memory_ops (ID ?new) StatusRunning (LeaseToken ?new) (rollback_record ?new) m)
      \<and> queue ?s' = queue s \<and> running ?s' = AList.delete (ID t) ?r"
    using ready assms(4,5,7) w c(1) by (auto simp: dispatch_step_def Let_def)
  with mem.rollback_write(1) [OF c(3) l _ v(2,1)] assms(4,6) mem.look_valid [OF assms(1,2)] show ?thesis
    by (auto simp: rollback_record_def gmap_simps fun_upd_idem inc64_below dec64_def Validate_None_iff)
qed

theorem dispatch_full_keeps_lease_witness:
  "\<exists>u. mem_look (store (dispatch_step memory_ops (\<lambda>_. 7) (job ''p'' [] StatusPending)
       (leased\<lparr>handlers := [''echo''], queue := [leased_task, leased_task]\<rparr>))) ''p'' = Some u
     \<and> Status u = StatusPending \<and> LeaseToken u = lease_token 7 ''p''"
proof -
  let ?s = "leased\<lparr>handlers := [''echo''], queue := [leased_task, leased_task]\<rparr>"
  have "map_of (running ?s) ''p'' = None" by (simp add: leased_def)
  moreover have "deps_ok (mem_look (store ?s)) (job ''p'' [] StatusPending)" by (simp add: deps_ok_def job_def append_nil_def)
  moreover have "nworkers ?s = 1" by (simp add: leased_def demo_def Scheduler_New_def Let_def)
  ultimately show ?thesis
    using dispatch_full_keeps_lease [of ?s "job ''p'' [] StatusPending" "\<lambda>_. 7"] by (auto simp: job_def zero_task_def)
qed

text \<open>The result of a local execution counts only while the execution still holds the task: when the
  stored task is running under the token the execution was queued with, the record gets the outcome of
  the run (a run whose context was cancelled or timed out counts as failed); otherwise, after a
  cancellation, a reaped lease, a requeue at stop or a purge, the result changes nothing in the store.\<close>

theorem execute_end_exact:
  fixes c :: nat and handlerErr :: "error option" and timedOut :: bool
  assumes "mem_inv (store s)" and "0 < now"
    and "\<forall>cur. mem_look (store s) (ID t) = Some cur \<longrightarrow> RunCount cur \<noteq> 2 ^ 63 - 1"
  defines "s' \<equiv> execute_end memory_ops t c handlerErr timedOut now s"
    and "err \<equiv> if handlerErr = None then ctx_err t c timedOut s else handlerErr"
  shows "mem_inv (store s') \<and> map_of (running s') = (map_of (running s))(ID t := None)
     \<and> (case mem_look (store s) (ID t) of
          Some cur \<Rightarrow>
            if Status cur = StatusRunning \<and> LeaseToken cur = LeaseToken t
            then mem_look (store s') = (mem_look (store s))(ID t \<mapsto> fst (finished_record err now cur))
            else store s' = store s
        | None \<Rightarrow> store s' = store s)"
proof (cases "\<exists>cur. mem_look (store s) (ID t) = Some cur \<and> Status cur = StatusRunning \<and> LeaseToken cur = LeaseToken t")
  case True
  then obtain cur where cur: "mem_look (store s) (ID t) = Some cur" "Status cur = StatusRunning" "LeaseToken cur = LeaseToken t" by blast
  note v = mem.look_id [OF assms(1) cur(1)] mem.look_valid [OF assms(1) cur(1)] mem.look_clone [OF assms(1) cur(1)]
  have "Validate (fst (finished_record err now cur)) = None" using Validate_finished v(2) assms(2,3) cur(1) by simp
  with mem.finish_look [OF assms(1), of cur cur err now] cur v obtain m
    where "Scheduler_finish memory_ops cur err now s = (None, count_metric (snd (finished_record err now cur)) (s\<lparr>store := m\<rparr>))"
      "mem_look m = (mem_look (store s))(ID t \<mapsto> fst (finished_record err now cur))" "mem_inv m" by auto
  with cur mem_get [OF assms(1)] show ?thesis
    by (simp add: s'_def execute_end_def err_def [symmetric] Let_def gmap_simps)
next
  case False
  then have "s' = s\<lparr>running := AList.delete (ID t) (running s), canceledCtx := c # canceledCtx s\<rparr>"
    using mem_get [OF assms(1), of "ID t"] by (auto simp: s'_def execute_end_def Let_def split: option.splits)
  with False assms(1) show ?thesis by (auto simp: gmap_simps split: option.split)
qed

theorem execute_end_exact_witness:
  "mem_look (store (execute_end memory_ops leased_task 0 None False 7 leased)) ''r''
     = Some (fst (finished_record None 7 leased_task))"
proof -
  have "ctx_err leased_task 0 False leased = None" by code_simp
  with execute_end_exact [OF leased_inv, of 7 leased_task 0 None False] show ?thesis by simp
qed

end
