(* ===== verification/Concurrency.thy ===== *)
theory Concurrency
  imports Dispatch
begin

text \<open>
  Concurrent schedulers, workers and API calls on one store. An operation of the scheduler reads records,
  computes a new record and writes it with a conditional update; between its read and its write any number of
  other operations may happen. A step of the relation \<open>wstep\<close> is one such write: it starts from any record
  the store held at some earlier moment (\<open>seen\<close>), so its snapshot may be stale, it has passed the guard the
  code evaluates on the snapshot, and it succeeds at the store. The guards keep only what the
  safety proofs need; the code's are at least as strong (the end of this theory proves that for the
  operations themselves).

  Two assumptions are built in. The clock advances between two claims, because lease tokens
  contain the nanosecond of the claim (\<open>tick\<close>). And a purge happens while no other operation on that id is
  in flight (it drops the snapshots of the id): the compare-and-swap cannot tell a purged and
  resubmitted id from the old one. The recovery at start, which writes unconditionally, runs before the
  scheduler's goroutines do and is treated with the start operation.
\<close>

section \<open>The step relation\<close>

record 's world =
  wstore :: 's
  seen :: "task set"
  tick :: gtime

datatype event = Submitted string | Claimed string string | Unready string | Finished string string | Renewed string
  | Beat string | Canceled string | TakenBack string | RolledBack string | Purged string

definition wput :: "'s store_ops \<Rightarrow> 's \<Rightarrow> 's world \<Rightarrow> 's world" where
  "wput ops m w = w\<lparr>wstore := m, seen := seen w \<union> set (listed ops m)\<rparr>"

inductive wstep :: "'s store_ops \<Rightarrow> 's world \<Rightarrow> event \<Rightarrow> 's world \<Rightarrow> bool" for ops where
  submit: "Create ops t (wstore w) = (None, m) \<Longrightarrow> Status t = StatusPending \<Longrightarrow> LeaseToken t = [] \<Longrightarrow>
     wstep ops w (Submitted (ID t)) (wput ops m w)"
| claim: "t \<in> seen w \<Longrightarrow> is_due x t \<Longrightarrow> tick w < now \<Longrightarrow>
     update_if_state ops (ID t) (Status t) (LeaseToken t)
       (claimed_record wid now ttl (lease_token now (ID t)) t) (wstore w) = (None, m) \<Longrightarrow>
     wstep ops w (Claimed (ID t) wid) ((wput ops m w)\<lparr>tick := now\<rparr>)"
| unready: "t \<in> seen w \<Longrightarrow> is_due x t \<Longrightarrow>
     update_if_state ops (ID t) (Status t) (LeaseToken t) (failed_record reason now t) (wstore w) = (None, m) \<Longrightarrow>
     wstep ops w (Unready (ID t)) (wput ops m w)"
| finish: "t \<in> seen w \<Longrightarrow> Status t = StatusRunning \<Longrightarrow>
     update_if_state ops (ID t) StatusRunning (LeaseToken t)
       (fst (finished_record e now (t\<lparr>Result := append_nil r\<rparr>))) (wstore w) = (None, m) \<Longrightarrow>
     wstep ops w (Finished (ID t) (WorkerID t)) (wput ops m w)"
| renew: "t \<in> seen w \<Longrightarrow> Status t = StatusRunning \<Longrightarrow>
     update_if_lease ops (ID t) (LeaseToken t) (t\<lparr>LeaseUntil := Some until\<rparr>) (wstore w) = (None, m) \<Longrightarrow>
     wstep ops w (Renewed (ID t)) (wput ops m w)"
| beat: "asWorkerRegistry ops = Some reg \<Longrightarrow> RenewWorkerTaskLeases reg wid until (wstore w) = (None, m) \<Longrightarrow>
     wstep ops w (Beat wid) (wput ops m w)"
| cancel: "t \<in> seen w \<Longrightarrow> \<not> IsTerminal t \<Longrightarrow>
     update_if_state ops (ID t) (Status t) (LeaseToken t) (canceled_record now t) (wstore w) = (None, m) \<Longrightarrow>
     wstep ops w (Canceled (ID t)) (wput ops m w)"
| take_back: "t \<in> seen w \<Longrightarrow> Status t = StatusRunning \<Longrightarrow>
     update_if_state ops (ID t) StatusRunning (LeaseToken t) (retry_record reason now t) (wstore w) = (None, m) \<Longrightarrow>
     wstep ops w (TakenBack (ID t)) (wput ops m w)"
| roll_back: "t \<in> seen w \<Longrightarrow> Status t = StatusRunning \<Longrightarrow>
     update_if_state ops (ID t) StatusRunning (LeaseToken t) (rollback_record t) (wstore w) = (None, m) \<Longrightarrow>
     wstep ops w (RolledBack (ID t)) (wput ops m w)"
| purge: "t \<in> seen w \<Longrightarrow> Status t \<noteq> StatusRunning \<Longrightarrow> Delete ops (ID t) (wstore w) = (None, m) \<Longrightarrow>
     wstep ops w (Purged (ID t)) (w\<lparr>wstore := m, seen := {u \<in> seen w. ID u \<noteq> ID t}\<rparr>)"

inductive_cases finished_stepE: "wstep ops w (Finished i wid) w'"

text \<open>Runs: sequences of steps with their events.\<close>

inductive wrun :: "'s store_ops \<Rightarrow> 's world \<Rightarrow> event list \<Rightarrow> 's world \<Rightarrow> bool" for ops where
  start: "wrun ops w [] w"
| step: "wrun ops w0 es w \<Longrightarrow> wstep ops w e w' \<Longrightarrow> wrun ops w0 (es @ [e]) w'"

definition world0 :: "'s \<Rightarrow> gtime \<Rightarrow> 's world" where
  "world0 m now = \<lparr>wstore = m, seen = {}, tick = now\<rparr>"

section \<open>The invariant\<close>

text \<open>Every lease token was made at a claim no later than the last one.\<close>

definition token_ok :: "gtime \<Rightarrow> task \<Rightarrow> bool" where
  "token_ok x t \<longleftrightarrow> (LeaseToken t = [] \<and> Status t \<noteq> StatusRunning) \<or> (\<exists>y \<le> x. LeaseToken t = lease_token y (ID t))"

text \<open>Two running snapshots of a task with one token belong to one lease.\<close>

definition same_lease :: "task \<Rightarrow> task \<Rightarrow> bool" where
  "same_lease t u \<longleftrightarrow> (Status t = StatusRunning \<longrightarrow> Status u = StatusRunning \<longrightarrow> ID t = ID u \<longrightarrow> LeaseToken t = LeaseToken u
     \<longrightarrow> WorkerID t = WorkerID u \<and> Attempts t = Attempts u \<and> StartedAt t = StartedAt u)"

lemma same_lease_sym: "same_lease t u \<longleftrightarrow> same_lease u t"
  by (auto simp: same_lease_def)

lemma lease_token_inj: "lease_token x i = lease_token y i \<Longrightarrow> x = y"
  by (auto simp: lease_token_def UnixNano_def dest: dec_int_inj)

lemma lease_token_ne [simp]: "lease_token x i \<noteq> []"
  by (simp add: lease_token_def)

lemma token_ok_mono: "token_ok x t \<Longrightarrow> x \<le> y \<Longrightarrow> token_ok y t"
  unfolding token_ok_def by (meson order_trans)

text \<open>The status changes a single write can make, and the events that end or start a lease on a task.\<close>

definition may_become :: "status \<Rightarrow> status \<Rightarrow> bool" where
  "may_become a b \<longleftrightarrow>
     a \<in> {StatusPending, StatusRetrying} \<and> b \<in> {StatusRunning, StatusFailed}
     \<or> a = StatusRunning \<and> b \<in> {StatusRunning, StatusPending, StatusRetrying, StatusSuccess, StatusFailed}
     \<or> a \<notin> {StatusSuccess, StatusCanceled} \<and> b = StatusCanceled"

fun touches :: "string \<Rightarrow> event \<Rightarrow> bool" where
  "touches i (Claimed j wid) = (j = i)"
| "touches i (Finished j wid) = (j = i)"
| "touches i (Unready j) = (j = i)"
| "touches i (Canceled j) = (j = i)"
| "touches i (TakenBack j) = (j = i)"
| "touches i (RolledBack j) = (j = i)"
| "touches i (Purged j) = (j = i)"
| "touches i (Submitted j) = (j = i)"
| "touches i (Renewed j) = False"
| "touches i (Beat wid) = False"

context worker_store
begin

definition winv :: "'a world \<Rightarrow> bool" where
  "winv w \<longleftrightarrow> inv (wstore w)
     \<and> (\<forall>i c. look (wstore w) i = Some c \<longrightarrow> c \<in> seen w)
     \<and> (\<forall>t \<in> seen w. clone t = t \<and> token_ok (tick w) t
          \<and> (\<exists>c. look (wstore w) (ID t) = Some c \<and> static c = static t))
     \<and> (\<forall>t \<in> seen w. \<forall>u \<in> seen w. same_lease t u)"

lemma set_listed: "inv m \<Longrightarrow> set (listed ops m) = ran (look m)"
  using listed_mem [of m] look_id [of m] by (auto simp: ran_def)

lemma winv_put:
  assumes w: "winv w" and inv: "inv m" and look: "look m = (look (wstore w))(i \<mapsto> u)" and x: "tick w \<le> x"
    and c: "\<And>c. look (wstore w) i = Some c \<Longrightarrow> static u = static c" and u: "ID u = i" "clone u = u" "token_ok x u"
    and h: "\<And>t. t \<in> seen w \<Longrightarrow> same_lease t u"
  shows "winv ((wput ops m w)\<lparr>tick := x\<rparr>)"
proof -
  have ran: "ran (look m) \<subseteq> insert u (seen w)" "u \<in> ran (look m)"
    using w look by (auto simp: winv_def ran_def split: if_splits)
  then have seen: "seen (wput ops m w) = insert u (seen w)"
    using set_listed [OF inv] by (auto simp: wput_def)
  have old: "\<exists>d. look m (ID t) = Some d \<and> static d = static t" if t: "t \<in> seen w" for t
  proof -
    obtain d where d: "look (wstore w) (ID t) = Some d" "static d = static t"
      using w t unfolding winv_def by blast
    show ?thesis
    proof (cases "ID t = i")
      case True
      with d c [of d] have "static u = static t" by simp
      with True look show ?thesis by simp
    next
      case False
      with d look show ?thesis by simp
    qed
  qed
  have "\<forall>t \<in> insert u (seen w). clone t = t \<and> token_ok x t \<and> (\<exists>d. look m (ID t) = Some d \<and> static d = static t)"
    using w u x old look by (auto simp: winv_def intro: token_ok_mono)
  moreover have "same_lease u u" by (simp add: same_lease_def)
  then have "\<forall>t \<in> insert u (seen w). \<forall>v \<in> insert u (seen w). same_lease t v"
    using w h same_lease_sym by (auto simp: winv_def)
  moreover have "\<forall>j d. look m j = Some d \<longrightarrow> d \<in> insert u (seen w)" using ran(1) by (auto simp: ran_def)
  ultimately show ?thesis using inv seen by (simp add: winv_def wput_def)
qed

text \<open>A successful conditional write.\<close>

lemma cas_wins:
  assumes "inv m0" and "ID u = i" and "update_if_state ops i st token u m0 = (None, m)"
  shows "cas_hit i st token u (look m0)" and "look m = (look m0)(i \<mapsto> clone u)"
    and "\<forall>c. look m0 i = Some c \<longrightarrow> IdempotencyKey u = IdempotencyKey c \<Longrightarrow> inv m"
  using write_miss [OF assms(1,2), of st token] write_look [OF assms(1,2), of st token]
    write_inv [OF assms(1,2), of st token] assms(3) by auto

lemma lease_wins:
  assumes "inv m0" and "ID u = i" and "update_if_lease ops i token u m0 = (None, m)"
  shows "cas_hit i StatusRunning token u (look m0)" and "look m = (look m0)(i \<mapsto> clone u)"
    and "\<forall>c. look m0 i = Some c \<longrightarrow> IdempotencyKey u = IdempotencyKey c \<Longrightarrow> inv m"
  using cas_lease [OF assms(1,2), of token] lease_look [OF assms(1,2), of token]
    lease_inv [OF assms(1,2), of token] assms(3)
  by (auto simp: update_if_lease_eq meets_def cas_spec_hit split: if_splits)

text \<open>What a successful write from a snapshot \<open>t\<close> means: the stored record \<open>c\<close> has the snapshot's status and
  token and the same submitted fields.\<close>

lemma snapshot_write:
  assumes w: "winv w" and t: "t \<in> seen w" and u: "static u = static t" "clone u = u"
    and wr: "update_if_state ops (ID t) st (LeaseToken t) u (wstore w) = (None, m)
       \<or> st = StatusRunning \<and> update_if_lease ops (ID t) (LeaseToken t) u (wstore w) = (None, m)"
  obtains c where "look (wstore w) (ID t) = Some c" and "c \<in> seen w" and "Status c = st" and "LeaseToken c = LeaseToken t"
    and "static u = static c" and "look m = (look (wstore w))(ID t \<mapsto> u)" and "inv m"
proof -
  have inv: "inv (wstore w)" using w by (simp add: winv_def)
  obtain c where c: "look (wstore w) (ID t) = Some c" "static c = static t" using w t unfolding winv_def by blast
  have id: "ID u = ID t" using u(1) by (rule static_ID)
  have key: "\<forall>d. look (wstore w) (ID t) = Some d \<longrightarrow> IdempotencyKey u = IdempotencyKey d"
    using c u(1) by (auto simp: static_iff)
  have "cas_hit (ID t) st (LeaseToken t) u (look (wstore w)) \<and> look m = (look (wstore w))(ID t \<mapsto> clone u) \<and> inv m"
    using wr cas_wins [OF inv id] lease_wins [OF inv id] key by blast
  moreover have "c \<in> seen w" using w c(1) by (auto simp: winv_def)
  ultimately show thesis using that c u by (auto simp: cas_hit_def)
qed

text \<open>Writes that end a lease or never had one keep the invariant.\<close>

lemma winv_quiet:
  assumes "winv w" and "t \<in> seen w" and "static u = static t" and "clone u = u" and "Status u \<noteq> StatusRunning"
    and "LeaseToken u = [] \<or> LeaseToken u = LeaseToken t"
    and "update_if_state ops (ID t) st (LeaseToken t) u (wstore w) = (None, m)"
  shows "winv (wput ops m w)"
proof -
  from snapshot_write [OF assms(1-4), of st m] assms(7) obtain c
    where c: "static u = static c" "look m = (look (wstore w))(ID t \<mapsto> u)" "inv m" "look (wstore w) (ID t) = Some c" by blast
  have id: "ID u = ID t" using assms(3) by (rule static_ID)
  have "token_ok (tick w) t" using assms(1,2) by (auto simp: winv_def)
  then have "token_ok (tick w) u" using assms(5,6) id by (auto simp: token_ok_def)
  with winv_put [OF assms(1) c(3,2), of "tick w"] c(1,4) id assms(4,5) show ?thesis
    by (auto simp: same_lease_def wput_def)
qed

lemma winv_submit:
  assumes "winv w" and "Create ops t (wstore w) = (None, m)" and "Status t = StatusPending" and "LeaseToken t = []"
  shows "winv (wput ops m w)" and "look m = (look (wstore w))(ID t \<mapsto> clone t)" and "look (wstore w) (ID t) = None"
proof -
  have inv: "inv (wstore w)" using assms(1) by (simp add: winv_def)
  from create [OF inv, of t] assms(2) show look: "look m = (look (wstore w))(ID t \<mapsto> clone t)" "look (wstore w) (ID t) = None"
    by (auto simp: meets_def create_spec_def split: if_splits)
  have "inv m" using inv_create [OF inv, of t] assms(2) by simp
  from winv_put [OF assms(1) this look(1), of "tick w"] look(2) assms(3,4) show "winv (wput ops m w)"
    by (auto simp: token_ok_def same_lease_def wput_def)
qed

lemma winv_claim:
  assumes "winv w" and "t \<in> seen w" and "tick w < now"
    and "update_if_state ops (ID t) st (LeaseToken t) (claimed_record wid now ttl (lease_token now (ID t)) t) (wstore w) = (None, m)"
  shows "winv ((wput ops m w)\<lparr>tick := now\<rparr>)"
proof -
  let ?u = "claimed_record wid now ttl (lease_token now (ID t)) t"
  have u: "static ?u = static t" "clone ?u = ?u" using assms(1,2) by (auto simp: winv_def)
  from snapshot_write [OF assms(1,2) u] assms(4) obtain c
    where c: "static ?u = static c" "look m = (look (wstore w))(ID t \<mapsto> ?u)" "inv m" "look (wstore w) (ID t) = Some c" by blast
  have fresh: "LeaseToken v \<noteq> lease_token now (ID v)" if "v \<in> seen w" for v
  proof
    assume eq: "LeaseToken v = lease_token now (ID v)"
    have "token_ok (tick w) v" using assms(1) that by (auto simp: winv_def)
    with eq obtain y where "y \<le> tick w" "lease_token y (ID v) = lease_token now (ID v)" by (auto simp: token_ok_def)
    with lease_token_inj assms(3) show False by fastforce
  qed
  have "same_lease v ?u" if "v \<in> seen w" for v using fresh [OF that] by (auto simp: same_lease_def)
  moreover have "token_ok now ?u" by (auto simp: token_ok_def)
  ultimately show ?thesis
    using winv_put [OF assms(1) c(3,2), of now] c(1,4) u(2) assms(3) by simp
qed

lemma winv_renew:
  assumes "winv w" and "t \<in> seen w" and "Status t = StatusRunning"
    and "update_if_lease ops (ID t) (LeaseToken t) (t\<lparr>LeaseUntil := u\<rparr>) (wstore w) = (None, m)"
  shows "winv (wput ops m w)"
proof -
  let ?u = "t\<lparr>LeaseUntil := u\<rparr>"
  have u: "static ?u = static t" "clone ?u = ?u" "token_ok (tick w) ?u"
    using assms(1,2) by (auto simp: winv_def token_ok_def)
  from snapshot_write [OF assms(1,2) u(1,2)] assms(4) obtain c
    where c: "static ?u = static c" "look m = (look (wstore w))(ID t \<mapsto> ?u)" "inv m" "look (wstore w) (ID t) = Some c" by blast
  have "same_lease v ?u" if "v \<in> seen w" for v
  proof -
    have "same_lease v t" using assms(1,2) that by (simp add: winv_def)
    then show ?thesis by (simp add: same_lease_def)
  qed
  with winv_put [OF assms(1) c(3,2), of "tick w"] c(1,4) u(2,3) show ?thesis by (simp add: wput_def)
qed

lemma static_extended [simp]: "static (extended wid until t) = static t"
  by (simp add: extended_def)

lemma extended_more [simp]:
  "Attempts (extended wid until t) = Attempts t" "StartedAt (extended wid until t) = StartedAt t"
  by (simp_all add: extended_def)

lemma winv_beat:
  assumes "winv w" and "RenewWorkerTaskLeases reg wid until (wstore w) = (None, m)"
  shows "winv (wput ops m w)" and "look m = (\<lambda>k. map_option (extended wid until) (look (wstore w) k))"
proof -
  have inv0: "inv (wstore w)" using assms(1) by (simp add: winv_def)
  from renew [OF inv0, of wid until] assms(2) show look: "look m = (\<lambda>k. map_option (extended wid until) (look (wstore w) k))"
    by auto
  from renew [OF inv0, of wid until] assms(2) have inv: "inv m" by auto
  let ?f = "extended wid until" and ?c = "ran (look (wstore w))"
  have cs: "?c \<subseteq> seen w" using assms(1) by (auto simp: winv_def ran_def)
  have "ran (look m) = ?f ` ?c" unfolding look by (auto simp: ran_def)
  then have seen: "seen (wput ops m w) = seen w \<union> ?f ` ?c" using set_listed [OF inv] by (simp add: wput_def)
  have rep: "\<exists>u \<in> seen w. v = u \<or> v = ?f u" if "v \<in> seen w \<union> ?f ` ?c" for v using that cs by auto
  have "clone v = v \<and> token_ok (tick w) v \<and> (\<exists>c. look m (ID v) = Some c \<and> static c = static v)"
    if "v \<in> seen w \<union> ?f ` ?c" for v
  proof -
    obtain u where u: "u \<in> seen w" "v = u \<or> v = ?f u" using rep [OF \<open>v \<in> _\<close>] by blast
    then obtain c where c: "clone u = u" "token_ok (tick w) u" "look (wstore w) (ID u) = Some c" "static c = static u"
      using assms(1) unfolding winv_def by blast
    then have "look m (ID u) = Some (?f c)" using look by simp
    with c u(2) show ?thesis by (auto simp: clone_extended token_ok_def)
  qed
  moreover have "same_lease v v'" if v: "v \<in> seen w \<union> ?f ` ?c" and v': "v' \<in> seen w \<union> ?f ` ?c" for v v'
  proof -
    obtain u u' where "u \<in> seen w" "v = u \<or> v = ?f u" "u' \<in> seen w" "v' = u' \<or> v' = ?f u'"
      using rep [OF v] rep [OF v'] by blast
    moreover then have "same_lease u u'" using assms(1) by (simp add: winv_def)
    ultimately show ?thesis by (auto simp: same_lease_def)
  qed
  moreover have "\<forall>i c. look m i = Some c \<longrightarrow> c \<in> seen w \<union> ?f ` ?c" by (auto simp: look ran_def)
  ultimately show "winv (wput ops m w)" using inv seen by (simp add: winv_def wput_def)
qed

lemma winv_purge:
  assumes "winv w" and "Delete ops i (wstore w) = (None, m)"
  shows "winv (w\<lparr>wstore := m, seen := {u \<in> seen w. ID u \<noteq> i}\<rparr>)" and "look m = (look (wstore w))(i := None)"
proof -
  have inv: "inv (wstore w)" using assms(1) by (simp add: winv_def)
  from delete [OF inv, of i] assms(2) show look: "look m = (look (wstore w))(i := None)"
    by (auto simp: meets_def delete_spec_def split: if_splits)
  have m: "inv m" using inv_delete [OF inv, of i] assms(2) by simp
  have "c \<in> seen w \<and> ID c \<noteq> i" if "look m j = Some c" for j c
    using that look look_id [OF inv, of j c] assms(1) by (auto simp: winv_def split: if_splits)
  moreover have "clone t = t \<and> token_ok (tick w) t \<and> (\<exists>c. look m (ID t) = Some c \<and> static c = static t)"
    if t: "t \<in> seen w" "ID t \<noteq> i" for t
  proof -
    have "clone t = t \<and> token_ok (tick w) t \<and> (\<exists>c. look (wstore w) (ID t) = Some c \<and> static c = static t)"
      using assms(1) t(1) unfolding winv_def by blast
    with t(2) look show ?thesis by simp
  qed
  moreover have "same_lease t u" if "t \<in> seen w" "u \<in> seen w" for t u using assms(1) that unfolding winv_def by blast
  ultimately show "winv (w\<lparr>wstore := m, seen := {u \<in> seen w. ID u \<noteq> i}\<rparr>)"
    using m unfolding winv_def by simp
qed

lemma seen_clone: "winv w \<Longrightarrow> t \<in> seen w \<Longrightarrow> clone t = t"
  unfolding winv_def by blast

lemma finished_quiet [simp]:
  "Status (fst (finished_record e now t)) \<noteq> StatusRunning" "LeaseToken (fst (finished_record e now t)) = []"
  by (simp_all add: finished_record_def Let_def split: option.split)

lemma quiet_tokens [simp]:
  "LeaseToken (failed_record reason now t) = LeaseToken t" "LeaseToken (canceled_record now t) = LeaseToken t"
  "LeaseToken (retry_record reason now t) = []" "LeaseToken (rollback_record t) = LeaseToken t"
  by (simp_all add: failed_record_def canceled_record_def retry_record_def rollback_record_def)

lemma wstep_winv: "wstep ops w e w' \<Longrightarrow> winv w \<Longrightarrow> winv w'"
proof (induction rule: wstep.induct)
  case (submit t w m)
  then show ?case using winv_submit(1) by blast
next
  case (claim t w x now wid ttl m)
  then show ?case using winv_claim by blast
next
  case (unready t w x reason now m)
  then show ?case using winv_quiet [OF unready.prems unready.hyps(1) _ _ _ _ unready.hyps(3)] seen_clone by simp
next
  case (finish t w e now r m)
  have "clone (t\<lparr>Result := append_nil r\<rparr>) = t\<lparr>Result := append_nil r\<rparr>"
    using seen_clone [OF finish.prems finish.hyps(1)] by simp
  then show ?case using winv_quiet [OF finish.prems finish.hyps(1) _ _ _ _ finish.hyps(3)] by simp
next
  case (renew t w until m)
  then show ?case using winv_renew by blast
next
  case (beat reg' wid until w m)
  then show ?case using winv_beat(1) registry by auto
next
  case (cancel t w now m)
  then show ?case using winv_quiet [OF cancel.prems cancel.hyps(1) _ _ _ _ cancel.hyps(3)] seen_clone by simp
next
  case (take_back t w reason now m)
  then show ?case using winv_quiet [OF take_back.prems take_back.hyps(1) _ _ _ _ take_back.hyps(3)] seen_clone by simp
next
  case (roll_back t w m)
  then show ?case using winv_quiet [OF roll_back.prems roll_back.hyps(1) _ _ _ _ roll_back.hyps(3)] seen_clone by simp
next
  case (purge t w m)
  then show ?case using winv_purge(1) by blast
qed

lemma wrun_winv: "wrun ops w0 es w \<Longrightarrow> winv w0 \<Longrightarrow> winv w"
  by (induction rule: wrun.induct) (auto intro: wstep_winv)

lemma winv_start: "inv m \<Longrightarrow> look m = Map.empty \<Longrightarrow> winv (world0 m now)"
  by (simp add: winv_def world0_def)

section \<open>Effects of a step\<close>

lemma write_effect:
  assumes "winv w" and "t \<in> seen w" and "static u = static t" and "clone u = u"
    and "update_if_state ops (ID t) st (LeaseToken t) u (wstore w) = (None, m)
       \<or> st = StatusRunning \<and> update_if_lease ops (ID t) (LeaseToken t) u (wstore w) = (None, m)"
  shows "look m = (look (wstore w))(ID t \<mapsto> u)
     \<and> (\<exists>c. look (wstore w) (ID t) = Some c \<and> Status c = st \<and> static u = static c \<and> same_lease c t
          \<and> LeaseToken c = LeaseToken t)"
proof -
  from snapshot_write [OF assms] obtain c where c: "look (wstore w) (ID t) = Some c" "c \<in> seen w" "Status c = st"
    "LeaseToken c = LeaseToken t" "static u = static c" "look m = (look (wstore w))(ID t \<mapsto> u)" by blast
  moreover have "same_lease c t" using assms(1,2) c(2) unfolding winv_def by blast
  ultimately show ?thesis by blast
qed

lemma finished_status_cases:
  "Status (fst (finished_record e now t)) \<in> {StatusPending, StatusRetrying, StatusSuccess, StatusFailed}"
  by (simp add: finished_record_def Let_def split: option.split)

definition step_ok :: "string \<Rightarrow> event \<Rightarrow> 'a world \<Rightarrow> 'a world \<Rightarrow> bool" where
  "step_ok i e w w' \<longleftrightarrow>
     (\<forall>c. look (wstore w) i = Some c \<longrightarrow>
        e = Purged i \<and> look (wstore w') i = None
        \<or> (\<exists>c'. look (wstore w') i = Some c' \<and> static c' = static c \<and> (c' = c \<or> may_become (Status c) (Status c'))))
     \<and> (\<forall>c'. look (wstore w') i = Some c' \<and> Status c' = StatusRunning \<longrightarrow>
        e = Claimed i (WorkerID c')
        \<or> \<not> touches i e \<and> (\<exists>c. look (wstore w) i = Some c \<and> Status c = StatusRunning \<and> WorkerID c = WorkerID c'))"

text \<open>A write from a snapshot to another status, and one that keeps the task running.\<close>

lemma step_ok_write:
  assumes "winv w" and "t \<in> seen w" and "static u = static t" and "clone u = u"
    and "update_if_state ops (ID t) st (LeaseToken t) u (wstore w) = (None, m)" and "wstore w' = m"
    and "may_become st (Status u)" and "Status u = StatusRunning \<Longrightarrow> e = Claimed (ID t) (WorkerID u)"
    and "touches i e \<longleftrightarrow> i = ID t"
  shows "step_ok i e w w'"
proof -
  from write_effect [OF assms(1-4), of st m] assms(5) obtain c where c: "look m = (look (wstore w))(ID t \<mapsto> u)"
    "look (wstore w) (ID t) = Some c" "Status c = st" "static u = static c" by blast
  show ?thesis
  proof (cases "i = ID t")
    case True
    with c assms(6-8) show ?thesis unfolding step_ok_def by auto
  next
    case False
    then have "look m i = look (wstore w) i" using c(1) by simp
    with False assms(6,9) show ?thesis unfolding step_ok_def by auto
  qed
qed

lemma step_ok_renew:
  assumes "winv w" and "t \<in> seen w" and "Status t = StatusRunning"
    and "update_if_lease ops (ID t) (LeaseToken t) (t\<lparr>LeaseUntil := u\<rparr>) (wstore w) = (None, m)" and "wstore w' = m"
  shows "step_ok i (Renewed j) w w'"
proof -
  let ?u = "t\<lparr>LeaseUntil := u\<rparr>"
  have u: "static ?u = static t" "clone ?u = ?u" using seen_clone [OF assms(1,2)] by simp_all
  from write_effect [OF assms(1,2) u, of StatusRunning m] assms(4) obtain c
    where c: "look m = (look (wstore w))(ID t \<mapsto> ?u)" "look (wstore w) (ID t) = Some c" "Status c = StatusRunning"
      "static ?u = static c" "same_lease c t" "LeaseToken c = LeaseToken t" by blast
  have "WorkerID c = WorkerID t" using c assms(3) static_ID [OF c(4)] by (auto simp: same_lease_def)
  then show ?thesis
    using c assms(3,5) unfolding step_ok_def by (cases "i = ID t") (auto simp: may_become_def)
qed

lemma step_ok_beat:
  assumes "look (wstore w') = (\<lambda>k. map_option (extended wid until) (look (wstore w) k))"
  shows "step_ok i (Beat wid) w w'"
proof -
  have "extended wid until c = c \<or> may_become (Status c) (Status (extended wid until c))" for c
    by (auto simp: extended_def may_become_def)
  then show ?thesis using assms by (simp add: step_ok_def) (metis extended_fields(3,4))
qed

lemma wstep_ok: "wstep ops w e w' \<Longrightarrow> winv w \<Longrightarrow> step_ok i e w w'"
proof (induction rule: wstep.induct)
  case (submit t w m)
  then show ?case using winv_submit(2,3) [OF submit.prems submit.hyps] by (auto simp: step_ok_def wput_def)
next
  case (claim t w x now wid ttl m)
  show ?case
    by (rule step_ok_write [OF claim.prems claim.hyps(1) _ _ claim.hyps(4)])
      (use claim seen_clone in \<open>auto simp: wput_def may_become_def is_due_def\<close>)
next
  case (unready t w x reason now m)
  show ?case
    by (rule step_ok_write [OF unready.prems unready.hyps(1) _ _ unready.hyps(3)])
      (use unready seen_clone in \<open>auto simp: wput_def may_become_def is_due_def\<close>)
next
  case (finish t w e now r m)
  show ?case
    by (rule step_ok_write [OF finish.prems finish.hyps(1) _ _ finish.hyps(3)])
      (use finish.prems finish.hyps(1) seen_clone finished_status_cases [of e now "t\<lparr>Result := append_nil r\<rparr>"]
        in \<open>auto simp: wput_def may_become_def\<close>)
next
  case (renew t w until m)
  then show ?case using step_ok_renew by (simp add: wput_def)
next
  case (beat reg' wid until w m)
  then have "look m = (\<lambda>k. map_option (extended wid until) (look (wstore w) k))" using winv_beat(2) registry by auto
  then show ?case using step_ok_beat by (simp add: wput_def)
next
  case (cancel t w now m)
  show ?case
    by (rule step_ok_write [OF cancel.prems cancel.hyps(1) _ _ cancel.hyps(3)])
      (use cancel seen_clone in \<open>auto simp: wput_def may_become_def IsTerminal_def\<close>)
next
  case (take_back t w reason now m)
  show ?case
    by (rule step_ok_write [OF take_back.prems take_back.hyps(1) _ _ take_back.hyps(3)])
      (use take_back seen_clone in \<open>auto simp: wput_def may_become_def\<close>)
next
  case (roll_back t w m)
  show ?case
    by (rule step_ok_write [OF roll_back.prems roll_back.hyps(1) _ _ roll_back.hyps(3)])
      (use roll_back seen_clone in \<open>auto simp: wput_def may_become_def\<close>)
next
  case (purge t w m)
  then show ?case using winv_purge(2) by (auto simp: step_ok_def)
qed

text \<open>A running task is held by the worker of the last claim on it, and nothing happened to it since.\<close>

lemma running_last_claim:
  assumes "wrun ops w0 es w" and "winv w0" and "look (wstore w0) = Map.empty"
    and "look (wstore w) i = Some c" and "Status c = StatusRunning"
  shows "\<exists>pre post. es = pre @ Claimed i (WorkerID c) # post \<and> (\<forall>e \<in> set post. \<not> touches i e)"
  using assms
proof (induction arbitrary: c rule: wrun.induct)
  case (start w)
  then show ?case by simp
next
  case (step w0 es w e w')
  have "winv w" using wrun_winv step.hyps(1) step.prems(1) by blast
  with wstep_ok [OF step.hyps(2), of i] step.prems(3,4) consider "e = Claimed i (WorkerID c)"
    | d where "\<not> touches i e" "look (wstore w) i = Some d" "Status d = StatusRunning" "WorkerID d = WorkerID c"
    unfolding step_ok_def by blast
  then show ?case
  proof cases
    case 1
    then show ?thesis by (intro exI [of _ es] exI [of _ "[]"]) simp
  next
    case 2
    then obtain pre post where "es = pre @ Claimed i (WorkerID c) # post" "\<forall>e \<in> set post. \<not> touches i e"
      using step.IH step.prems(1,2) by metis
    with 2 show ?thesis by (intro exI [of _ pre] exI [of _ "post @ [e]"]) auto
  qed
qed

lemma finished_holder:
  assumes "winv w" and "wstep ops w (Finished i wid) w'"
  shows "\<exists>c. look (wstore w) i = Some c \<and> Status c = StatusRunning \<and> WorkerID c = wid"
proof -
  from assms(2) obtain t e now r m where t: "t \<in> seen w" "Status t = StatusRunning" "i = ID t" "wid = WorkerID t"
    "update_if_state ops (ID t) StatusRunning (LeaseToken t)
       (fst (finished_record e now (t\<lparr>Result := append_nil r\<rparr>))) (wstore w) = (None, m)"
    by (elim finished_stepE) auto
  let ?u = "fst (finished_record e now (t\<lparr>Result := append_nil r\<rparr>))"
  have "static ?u = static t" "clone ?u = ?u" using seen_clone [OF assms(1) t(1)] by simp_all
  from write_effect [OF assms(1) t(1) this, of StatusRunning m] t(5) obtain c
    where c: "look (wstore w) (ID t) = Some c" "Status c = StatusRunning" "static ?u = static c" "same_lease c t"
      "LeaseToken c = LeaseToken t" by blast
  have "ID c = ID t" using static_ID [OF c(3)] by simp
  with c t show ?thesis by (auto simp: same_lease_def)
qed

end

section \<open>A concrete run\<close>

text \<open>One task is submitted, claimed by worker \<open>w\<close> and completed by it.\<close>

definition run_task :: task where
  "run_task = job ''a'' [] StatusPending"

definition run_m1 :: memory_store where
  "run_m1 = snd (MemoryStore_Create run_task NewMemory)"

definition run_claimed :: task where
  "run_claimed = claimed_record ''w'' 7 30 (lease_token 7 ''a'') run_task"

definition run_m2 :: memory_store where
  "run_m2 = snd (MemoryStore_UpdateIfState ''a'' StatusPending [] run_claimed run_m1)"

definition run_done :: task where
  "run_done = fst (finished_record None 8 run_claimed)"

definition run_m3 :: memory_store where
  "run_m3 = snd (MemoryStore_UpdateIfState ''a'' StatusRunning (lease_token 7 ''a'') run_done run_m2)"

definition run_w2 :: "memory_store world" where
  "run_w2 = (wput memory_ops run_m2 (wput memory_ops run_m1 (world0 NewMemory 0)))\<lparr>tick := 7\<rparr>"

lemma mem_update_if_state [simp]: "update_if_state memory_ops = MemoryStore_UpdateIfState"
  by (simp add: update_if_state_def fun_eq_iff)

lemma run_writes:
  "MemoryStore_Create run_task NewMemory = (None, run_m1)"
  "MemoryStore_UpdateIfState ''a'' StatusPending [] run_claimed run_m1 = (None, run_m2)"
  "MemoryStore_UpdateIfState ''a'' StatusRunning (lease_token 7 ''a'') run_done run_m2 = (None, run_m3)"
proof -
  have "fst (MemoryStore_Create run_task NewMemory) = None" by code_simp
  then show "MemoryStore_Create run_task NewMemory = (None, run_m1)" by (simp add: run_m1_def prod_eq_iff)
  have "fst (MemoryStore_UpdateIfState ''a'' StatusPending [] run_claimed run_m1) = None" by code_simp
  then show "MemoryStore_UpdateIfState ''a'' StatusPending [] run_claimed run_m1 = (None, run_m2)"
    by (simp add: run_m2_def prod_eq_iff)
  have "fst (MemoryStore_UpdateIfState ''a'' StatusRunning (lease_token 7 ''a'') run_done run_m2) = None" by code_simp
  then show "MemoryStore_UpdateIfState ''a'' StatusRunning (lease_token 7 ''a'') run_done run_m2 = (None, run_m3)"
    by (simp add: run_m3_def prod_eq_iff)
qed

lemma run_to_claim: "wrun memory_ops (world0 NewMemory 0) [Submitted ''a'', Claimed ''a'' ''w''] run_w2"
proof -
  let ?w1 = "wput memory_ops run_m1 (world0 NewMemory 0)"
  have f: "ID run_task = ''a''" "Status run_task = StatusPending" "LeaseToken run_task = []" "is_due 7 run_task"
    by (simp_all add: run_task_def job_def zero_task_def is_due_def)
  have 1: "wstep memory_ops (world0 NewMemory 0) (Submitted ''a'') ?w1"
    using wstep.submit [of memory_ops run_task "world0 NewMemory 0" run_m1] run_writes(1) f by (simp add: world0_def)
  have "run_task \<in> set (listed memory_ops run_m1)" by code_simp
  then have "run_task \<in> seen ?w1" by (simp add: wput_def)
  then have 2: "wstep memory_ops ?w1 (Claimed ''a'' ''w'') run_w2"
    using wstep.claim [of run_task ?w1 7 7 memory_ops "''w''" 30 run_m2] run_writes(2) f
    by (simp add: run_w2_def run_claimed_def wput_def world0_def)
  show ?thesis using wrun.step [OF wrun.step [OF wrun.start 1] 2] by simp
qed

lemma run_finish: "wstep memory_ops run_w2 (Finished ''a'' ''w'') (wput memory_ops run_m3 run_w2)"
proof -
  have f: "ID run_claimed = ''a''" "Status run_claimed = StatusRunning" "LeaseToken run_claimed = lease_token 7 ''a''"
    "WorkerID run_claimed = ''w''" "run_claimed\<lparr>Result := append_nil None\<rparr> = run_claimed"
    by (simp_all add: run_claimed_def run_task_def job_def zero_task_def claimed_record_def append_nil_def)
  have "run_claimed \<in> set (listed memory_ops run_m2)" by code_simp
  then have "run_claimed \<in> seen run_w2" by (simp add: run_w2_def wput_def)
  moreover have "wstore run_w2 = run_m2" by (simp add: run_w2_def wput_def)
  ultimately show ?thesis
    using wstep.finish [of run_claimed run_w2 memory_ops None 8 None run_m3] run_writes(3) f by (simp add: run_done_def)
qed

lemma start_empty: "mem_inv NewMemory" "mem_look NewMemory = Map.empty"
  by (simp_all add: mem_inv_def NewMemory_def mem_look_def wf_view_def)

lemmas start_winv = memw.winv_start [OF start_empty]

section \<open>Properties\<close>

text \<open>C1: in every interleaving of submissions, claims, completions, renewals, heartbeats,
  cancellations, reapings, requeues and purges, a completion is accepted only from the worker that
  claimed the task last, and between that claim and the completion no other claim, completion, takeover
  or cancellation of the task happened. So every claim is completed at most once, however stale the
  snapshots are that the operations work on.\<close>

theorem completion_by_last_claimant:
  assumes "wrun memory_ops (world0 NewMemory x) es w" and "wstep memory_ops w (Finished i wid) w'"
  shows "\<exists>pre post. es = pre @ Claimed i wid # post \<and> (\<forall>e \<in> set post. \<not> touches i e)"
proof -
  have w: "memw.winv w" using memw.wrun_winv [OF assms(1) start_winv] .
  from memw.finished_holder [OF w assms(2)] obtain c
    where "mem_look (wstore w) i = Some c" "Status c = StatusRunning" "WorkerID c = wid" by blast
  with memw.running_last_claim [OF assms(1) start_winv] start_empty(2) show ?thesis by (auto simp: world0_def)
qed

theorem completion_by_last_claimant_witness:
  "\<exists>pre post. [Submitted ''a'', Claimed ''a'' ''w''] = pre @ Claimed ''a'' ''w'' # post
     \<and> (\<forall>e \<in> set post. \<not> touches ''a'' e)"
  using completion_by_last_claimant [OF run_to_claim run_finish] .



text \<open>C12: the operations themselves are runs of the step relation. Seen from any world that has the scheduler's
  store and the records in it, an accepted completion, a granted renewal, a cancellation, a purge and a
  committed claim (at an instant after the last claim) are each one step with that event.\<close>

theorem operations_are_steps:
  assumes inv: "mem_inv (store s)" and w: "wstore w = store s" "set (listed memory_ops (store s)) \<subseteq> seen w"
  shows "(Scheduler_CompleteTaskWithResult memory_ops wid i token failure res clk s = (None, s') \<longrightarrow>
            wstep memory_ops w (Finished i wid) (wput memory_ops (store s') w))
    \<and> (Scheduler_RenewTaskLease memory_ops wid i token clk s = (Inr t, s') \<longrightarrow>
            wstep memory_ops w (Renewed i) (wput memory_ops (store s') w))
    \<and> (Scheduler_Cancel memory_ops i now s = (None, s') \<longrightarrow>
            store s' = store s \<or> wstep memory_ops w (Canceled i) (wput memory_ops (store s') w))
    \<and> (Scheduler_Purge memory_ops i s = (None, s') \<longrightarrow>
            wstep memory_ops w (Purged i) (w\<lparr>wstore := store s', seen := {u \<in> seen w. ID u \<noteq> i}\<rparr>))
    \<and> (Scheduler_commitClaim memory_ops wid i ttl now (store s) = (Inr t, m) \<and> tick w < now \<longrightarrow>
            wstep memory_ops w (Claimed i wid) ((wput memory_ops m w)\<lparr>tick := now\<rparr>))"
proof -
  have seen: "u \<in> seen w \<and> ID u = i" if "MemoryStore_Get i (store s) = Inr u" for u
    using that w(2) mem.listed_mem [OF inv, of u] mem.look_id [OF inv, of i u] mem.get_iff [OF inv, of i u] by auto
  have clone: "u\<lparr>Result := append_nil (Result u)\<rparr> = u" if "MemoryStore_Get i (store s) = Inr u" for u
    using mem.look_clone [OF inv, of i u] mem.get_iff [OF inv, of i u] that by (cases u) (simp add: clone_eq_iff)
  have "wstep memory_ops w (Finished i wid) (wput memory_ops (store s') w)"
    if c: "Scheduler_CompleteTaskWithResult memory_ops wid i token failure res clk s = (None, s')"
  proof -
    from c obtain u where u: "MemoryStore_Get i (store s) = Inr u" "validLease u wid token (clk 0)"
      by (auto simp: Scheduler_CompleteTaskWithResult_def split: sum.splits if_splits)
    let ?e = "if failure \<noteq> [] then Some (ErrNew failure) else None" and ?r = "if failure = [] then res else Result u"
    have "MemoryStore_UpdateIfState i StatusRunning (LeaseToken u)
        (fst (finished_record ?e (clk 1) (u\<lparr>Result := append_nil ?r\<rparr>))) (store s) = (None, store s')"
      using c u clone [OF u(1)] seen [OF u(1)]
      by (auto simp: Scheduler_CompleteTaskWithResult_def Scheduler_finish_def Let_def split: prod.splits option.splits if_splits)
    with wstep.finish [of u w memory_ops ?e "clk 1" ?r "store s'"] seen [OF u(1)] u(2) w(1) show ?thesis
      by (auto simp: validLease_def)
  qed
  moreover have "wstep memory_ops w (Renewed i) (wput memory_ops (store s') w)"
    if c: "Scheduler_RenewTaskLease memory_ops wid i token clk s = (Inr t, s')"
    using c seen wstep.renew [of _ w memory_ops "clk 1 + leaseTTL s" "store s'"] w(1)
    by (auto simp: Scheduler_RenewTaskLease_def validLease_def Let_def split: sum.splits prod.splits option.splits if_splits)
  moreover have "store s' = store s \<or> wstep memory_ops w (Canceled i) (wput memory_ops (store s') w)"
    if c: "Scheduler_Cancel memory_ops i now s = (None, s')"
    using c seen wstep.cancel [of _ w memory_ops now "store s'"] w(1)
    by (auto simp: Scheduler_Cancel_def Let_def split: sum.splits prod.splits option.splits if_splits)
  moreover have "wstep memory_ops w (Purged i) (w\<lparr>wstore := store s', seen := {u \<in> seen w. ID u \<noteq> i}\<rparr>)"
    if c: "Scheduler_Purge memory_ops i s = (None, s')"
    using c seen wstep.purge [of _ w memory_ops "store s'"] w(1)
    by (auto simp: Scheduler_Purge_def Let_def split: sum.splits prod.splits if_splits)
  moreover have "wstep memory_ops w (Claimed i wid) ((wput memory_ops m w)\<lparr>tick := now\<rparr>)"
    if c: "Scheduler_commitClaim memory_ops wid i ttl now (store s) = (Inr t, m)" and "tick w < now"
    using c seen wstep.claim [of _ w now now memory_ops wid ttl m] w(1) \<open>tick w < now\<close>
    by (auto simp: Scheduler_commitClaim_def is_due_def Let_def split: sum.splits prod.splits option.splits if_splits)
  ultimately show ?thesis by blast
qed

theorem operations_are_steps_witness:
  "\<exists>s'. wstep memory_ops \<lparr>wstore = store leased, seen = set (listed memory_ops (store leased)), tick = 0\<rparr>
     (Finished ''r'' ''w'') s'"
proof -
  let ?w = "\<lparr>wstore = store leased, seen = set (listed memory_ops (store leased)), tick = 0\<rparr>"
  have "fst (Scheduler_CompleteTaskWithResult memory_ops ''w'' ''r'' ''tok'' [] None (\<lambda>_. 7) leased) = None" by code_simp
  then obtain s' where "Scheduler_CompleteTaskWithResult memory_ops ''w'' ''r'' ''tok'' [] None (\<lambda>_. 7) leased = (None, s')"
    by (metis prod.collapse)
  moreover have w: "wstore ?w = store leased" "set (listed memory_ops (store leased)) \<subseteq> seen ?w" by simp_all
  ultimately show ?thesis using operations_are_steps [OF leased_inv w] by blast
qed

text \<open>C15: the reaper decides on a listing and its conditional write compares status and token only. A lease
  that was renewed between the listing and the write is therefore taken back all the same, although it
  is live, and counted as an expiry.\<close>

theorem reap_takes_renewed_lease:
  assumes "mem_inv (store s)" and "mem_look (store s) (ID t) = Some (t\<lparr>LeaseUntil := Some until\<rparr>)"
    and "lease_lapsed now t" and "now \<noteq> 0" and "now < until"
  shows "mem_look (store (reap_step memory_ops now t s)) (ID t) = Some (retry_record ''worker lease expired'' now t)
     \<and> leaseExpired (reap_step memory_ops now t s) = leaseExpired s + 1"
proof -
  let ?c = "t\<lparr>LeaseUntil := Some until\<rparr>" and ?new = "retry_record ''worker lease expired'' now t"
  have new: "?new = retry_record ''worker lease expired'' now ?c" by (simp add: retry_record_def)
  have v: "Validate ?new = None" "clone ?new = ?new"
    using mem.look_valid [OF assms(1,2)] mem.look_clone [OF assms(1,2)] assms(4) unfolding new by simp_all
  have run: "Status t = StatusRunning" using assms(3) by (simp add: lease_lapsed_def)
  obtain err m where wr: "MemoryStore_UpdateIfState (ID t) StatusRunning (LeaseToken t) ?new (store s) = (err, m)" by fastforce
  have "cas_hit (ID t) StatusRunning (LeaseToken t) ?new (mem_look (store s))" using assms(2) v run by (simp add: cas_hit_def)
  then have "err = None" "mem_look m = (mem_look (store s))(ID t \<mapsto> ?new)"
    using mem.write_ok [OF assms(1), of ?new "ID t" StatusRunning "LeaseToken t"]
      mem.write_look [OF assms(1), of ?new "ID t" StatusRunning "LeaseToken t"] wr v by simp_all
  moreover have "reap_step memory_ops now t s = (release (ID t) s)\<lparr>store := m, leaseExpired := leaseExpired s + 1\<rparr>"
    using wr assms(3) mem.lapsed_not_terminal [OF assms(3)] \<open>err = None\<close> by (simp add: reap_step_def Let_def)
  ultimately show ?thesis by simp
qed

theorem reap_takes_renewed_lease_witness:
  "mem_look (store (reap_step memory_ops 8 (leased_task\<lparr>LeaseUntil := Some 8\<rparr>) leased)) ''r''
     = Some (retry_record ''worker lease expired'' 8 (leased_task\<lparr>LeaseUntil := Some 8\<rparr>))"
proof -
  let ?t = "leased_task\<lparr>LeaseUntil := Some 8\<rparr>"
  have "leased_task\<lparr>LeaseUntil := Some 8, LeaseUntil := Some 10\<rparr> = leased_task" by (simp add: leased_task_def)
  moreover have "lease_lapsed 8 ?t" by (simp add: lease_lapsed_def)
  ultimately show ?thesis using reap_takes_renewed_lease [OF leased_inv, of ?t 10 8] by simp
qed

end
