(* ===== verification/Registry_Model.thy ===== *)
theory Registry_Model
  imports JobRaft_Prelude
begin

text \<open>
  Leader election of \<^verbatim>\<open>src/internal/cluster/election.go\<close>: the node registry kept in memory, the contract
  every registry promises (locale \<open>node_registry\<close>), and the elector that keeps a node's lease alive and
  answers the scheduler's leader gate.

  A role is a string in the source. The registry's map is an association list as everywhere; the readings
  of the clock are arguments. \<^verbatim>\<open>Leader\<close> and \<^verbatim>\<open>List\<close> delete expired nodes, so they return the new
  registry too.
\<close>

section \<open>Data\<close>

definition Follower :: string where "Follower = ''follower''"
definition Leader :: string where "Leader = ''leader''"

lemma role_distinct [simp]: "Follower \<noteq> Leader" "Leader \<noteq> Follower"
  by (simp_all add: Follower_def Leader_def)

record node =
  nID :: string
  Role :: string
  LastContact :: gtime
  nLeaseUntil :: gtime

definition zero_node :: node where
  "zero_node = \<lparr>nID = [], Role = [], LastContact = 0, nLeaseUntil = 0\<rparr>"

type_synonym nodes = "(string, node) gmap"

text \<open>Indexing a Go map yields the zero value for a missing key.\<close>

definition node_at :: "nodes \<Rightarrow> string \<Rightarrow> node" where
  "node_at r i = (case map_of r i of None \<Rightarrow> zero_node | Some n \<Rightarrow> n)"

section \<open>The operations\<close>

text \<open>The three loops the operations share: deleting the expired nodes, making every node a follower, and
  making the node with the least id the leader.\<close>

definition prune :: "gtime \<Rightarrow> nodes \<Rightarrow> nodes" where
  "prune now r = filter (\<lambda>(k, n). now < nLeaseUntil n) r"

definition demote :: "nodes \<Rightarrow> nodes" where
  "demote r = map (\<lambda>(k, n). (k, n\<lparr>Role := Follower\<rparr>)) r"

definition promote :: "nodes \<Rightarrow> nodes" where
  "promote r =
     (case sort (map fst r) of
        [] \<Rightarrow> r
      | i # _ \<Rightarrow> AList.update i ((node_at r i)\<lparr>Role := Leader\<rparr>) r)"

definition renewed :: "string \<Rightarrow> duration \<Rightarrow> gtime \<Rightarrow> nodes \<Rightarrow> nodes" where
  "renewed i ttl now r =
     promote (demote (AList.update i \<lparr>nID = i, Role = Follower, LastContact = now, nLeaseUntil = now + ttl\<rparr> (prune now r)))"

definition NewMemoryRegistry :: nodes where "NewMemoryRegistry = []"

definition MemoryRegistry_Renew :: "string \<Rightarrow> duration \<Rightarrow> gtime \<Rightarrow> nodes \<Rightarrow> (error + node) \<times> nodes" where
  "MemoryRegistry_Renew i ttl now r =
     (if i = [] \<or> ttl \<le> 0 then (Inl (ErrNew ''node id and positive ttl are required''), r)
      else let r' = renewed i ttl now r in (Inr (node_at r' i), r'))"

definition MemoryRegistry_Leader :: "gtime \<Rightarrow> nodes \<Rightarrow> node option \<times> nodes" where
  "MemoryRegistry_Leader now r =
     (let r1 = prune now r in
      case sort (map fst r1) of
        [] \<Rightarrow> (None, r1)
      | i # _ \<Rightarrow> (let n = (node_at r1 i)\<lparr>Role := Leader\<rparr> in (Some n, AList.update i n r1)))"

definition MemoryRegistry_List :: "gtime \<Rightarrow> nodes \<Rightarrow> node list \<times> nodes" where
  "MemoryRegistry_List now r = (let r' = promote (demote (prune now r)) in (map snd r', r'))"

section \<open>The elector\<close>

text \<open>The elector caches the node its last successful renewal returned; the leader gate asks the cache. \<open>renew\<close>
  stands for the registry's \<^verbatim>\<open>Renew\<close>. The loop renews at once and then at every tick until it is stopped.\<close>

record elector =
  eid :: string
  ettl :: duration
  enode :: node
  estarted :: bool

definition NewElector :: "bool \<Rightarrow> string \<Rightarrow> duration \<Rightarrow> error + elector" where
  "NewElector nil_registry i ttl =
     (if nil_registry \<or> i = [] \<or> ttl \<le> 0 then Inl (ErrNew ''registry, node id and positive ttl are required'')
      else Inr \<lparr>eid = i, ettl = ttl, enode = zero_node, estarted = False\<rparr>)"

definition Elector_interval :: "elector \<Rightarrow> duration" where
  "Elector_interval e = (let interval = ettl e div 3 in if interval \<le> 0 then 1000000 else interval)"

definition Elector_renew ::
  "(string \<Rightarrow> duration \<Rightarrow> gtime \<Rightarrow> 'r \<Rightarrow> (error + node) \<times> 'r) \<Rightarrow> gtime \<Rightarrow> elector \<Rightarrow> 'r \<Rightarrow> elector \<times> 'r" where
  "Elector_renew renew now e r =
     (let (res, r') = renew (eid e) (ettl e) now r in
      case res of Inr n \<Rightarrow> (e\<lparr>enode := n\<rparr>, r') | Inl _ \<Rightarrow> (e, r'))"

definition Elector_Start ::
  "(string \<Rightarrow> duration \<Rightarrow> gtime \<Rightarrow> 'r \<Rightarrow> (error + node) \<times> 'r) \<Rightarrow> gtime \<Rightarrow> elector \<Rightarrow> 'r \<Rightarrow> elector \<times> 'r" where
  "Elector_Start renew now e r =
     (if estarted e then (e, r) else Elector_renew renew now (e\<lparr>estarted := True\<rparr>) r)"

definition Elector_Stop :: "elector \<Rightarrow> elector" where
  "Elector_Stop e = (if estarted e then e\<lparr>estarted := False\<rparr> else e)"

definition Elector_IsLeader :: "elector \<Rightarrow> bool" where
  "Elector_IsLeader e \<longleftrightarrow> Role (enode e) = Leader"

section \<open>The contract\<close>

text \<open>The abstract registry is the map from node ids to the ends of their leases.\<close>

definition live_part :: "gtime \<Rightarrow> (string \<rightharpoonup> gtime) \<Rightarrow> string \<rightharpoonup> gtime" where
  "live_part now m = (\<lambda>i. case m i of None \<Rightarrow> None | Some u \<Rightarrow> if now < u then Some u else None)"

locale node_registry =
  fixes renew :: "string \<Rightarrow> duration \<Rightarrow> gtime \<Rightarrow> 'r \<Rightarrow> (error + node) \<times> 'r"
    and leader :: "gtime \<Rightarrow> 'r \<Rightarrow> node option \<times> 'r"
    and list :: "gtime \<Rightarrow> 'r \<Rightarrow> node list \<times> 'r"
    and leases :: "'r \<Rightarrow> string \<rightharpoonup> gtime"
    and inv :: "'r \<Rightarrow> bool"
  assumes finite_leases: "inv r \<Longrightarrow> finite (dom (leases r))"
    and renew_ok: "inv r \<Longrightarrow> i \<noteq> [] \<Longrightarrow> 0 < ttl \<Longrightarrow> \<exists>n r'. renew i ttl now r = (Inr n, r') \<and> inv r'
        \<and> leases r' = (live_part now (leases r))(i \<mapsto> now + ttl) \<and> nID n = i \<and> nLeaseUntil n = now + ttl
        \<and> Role n = (if i = Min (dom (leases r')) then Leader else Follower)"
    and renew_refused: "i = [] \<or> ttl \<le> 0 \<Longrightarrow> \<exists>e. renew i ttl now r = (Inl e, r)"
    and leader_ok: "inv r \<Longrightarrow> \<exists>r'. inv r' \<and> leases r' = live_part now (leases r)
        \<and> (if dom (live_part now (leases r)) = {} then leader now r = (None, r')
           else \<exists>n. leader now r = (Some n, r') \<and> nID n = Min (dom (live_part now (leases r))) \<and> Role n = Leader)"
    and list_ok: "inv r \<Longrightarrow> \<exists>ns r'. list now r = (ns, r') \<and> inv r' \<and> leases r' = live_part now (leases r)
        \<and> distinct (map nID ns) \<and> nID ` set ns = dom (live_part now (leases r))
        \<and> (\<forall>n \<in> set ns. Role n = (if nID n = Min (nID ` set ns) then Leader else Follower))"

end
