(* ===== verification/Election.thy ===== *)
theory Election
  imports Registry_Model
begin

text \<open>
  The memory registry keeps the contract, and what the contract gives: one leader, the least live id,
  on which every call agrees; take-over when it stops renewing; and what the elector's cached answer is
  worth.
\<close>

section \<open>MemoryRegistry meets the contract\<close>

definition reg_inv :: "nodes \<Rightarrow> bool" where
  "reg_inv r \<longleftrightarrow> distinct (map fst r) \<and> (\<forall>k n. map_of r k = Some n \<longrightarrow> nID n = k)"

definition reg_leases :: "nodes \<Rightarrow> string \<rightharpoonup> gtime" where
  "reg_leases r = (\<lambda>i. map_option nLeaseUntil (map_of r i))"

lemma sort_head: "sort xs = x # ys \<Longrightarrow> x = Min (set xs)" for xs :: "'a :: linorder list"
  by (metis Min_eqI finite_set list.set_intros(1) set_ConsD set_sort sorted_simps(2) sorted_sort order_refl)

lemma reg_look_id: "reg_inv r \<Longrightarrow> map_of r i = Some n \<Longrightarrow> nID n = i"
  by (simp add: reg_inv_def)

lemma reg_leases_dom: "dom (reg_leases r) = fst ` set r"
  by (auto simp: reg_leases_def dom_map_of_conv_image_fst [symmetric] dom_def)

lemma map_of_prune: "distinct (map fst r) \<Longrightarrow>
    map_of (prune now r) i = (case map_of r i of None \<Rightarrow> None | Some n \<Rightarrow> if now < nLeaseUntil n then Some n else None)"
  by (induction r) (auto simp: prune_def split: option.splits simp: map_of_eq_None_iff image_iff)

lemma map_of_demote: "map_of (demote r) i = map_option (\<lambda>n. n\<lparr>Role := Follower\<rparr>) (map_of r i)"
  unfolding demote_def by (rule map_of_map_values)

lemma reg_inv_prune: "reg_inv r \<Longrightarrow> reg_inv (prune now r)"
  by (auto simp: reg_inv_def map_of_prune split: option.splits if_splits) (simp add: prune_def distinct_map_filter)

lemma reg_inv_demote: "reg_inv r \<Longrightarrow> reg_inv (demote r)"
  by (auto simp: reg_inv_def map_of_demote) (simp add: demote_def del: map_map)

lemma reg_inv_put: "reg_inv r \<Longrightarrow> nID n = i \<Longrightarrow> reg_inv (AList.update i n r)"
  by (auto simp: reg_inv_def gmap_simps)

lemma reg_leases_prune: "reg_inv r \<Longrightarrow> reg_leases (prune now r) = live_part now (reg_leases r)"
  by (auto simp: reg_leases_def live_part_def map_of_prune reg_inv_def split: option.split)

lemma reg_leases_demote: "reg_leases (demote r) = reg_leases r"
  by (auto simp: reg_leases_def map_of_demote option.map_comp comp_def)

lemma reg_leases_put: "reg_leases (AList.update i n r) = (reg_leases r)(i \<mapsto> nLeaseUntil n)"
  by (auto simp: reg_leases_def gmap_simps)

text \<open>The least id is the leader.\<close>

lemma promote_look:
  assumes "r \<noteq> []"
  shows "\<exists>n. map_of r (Min (fst ` set r)) = Some n
     \<and> map_of (promote r) = (map_of r)(Min (fst ` set r) \<mapsto> n\<lparr>Role := Leader\<rparr>)"
proof -
  obtain i js where s: "sort (map fst r) = i # js" using assms by (cases "sort (map fst r)") (auto dest: arg_cong [of _ _ length])
  then have i: "i = Min (fst ` set r)" using sort_head [OF s] by simp
  then have "i \<in> fst ` set r" using assms by (simp add: Min_in)
  then obtain n where "map_of r i = Some n" by (auto simp: dom_map_of_conv_image_fst [symmetric])
  then show ?thesis using s i by (auto simp: promote_def node_at_def gmap_simps)
qed

lemma reg_inv_promote: "reg_inv r \<Longrightarrow> reg_inv (promote r)"
proof (cases "r = []")
  case False
  assume inv: "reg_inv r"
  obtain i js where s: "sort (map fst r) = i # js" using False by (cases "sort (map fst r)") (auto dest: arg_cong [of _ _ length])
  then have "i \<in> set (map fst r)" by (metis list.set_intros(1) set_sort)
  then obtain n where "map_of r i = Some n" by (auto simp: dom_map_of_conv_image_fst [symmetric])
  then show ?thesis using s reg_inv_put [OF inv, of "n\<lparr>Role := Leader\<rparr>" i] reg_look_id [OF inv] by (simp add: promote_def node_at_def)
qed (simp add: promote_def)

lemma reg_leases_promote: "reg_leases (promote r) = reg_leases r"
  using promote_look [of r] by (cases "r = []") (auto simp: promote_def reg_leases_def)

lemma promoted_role:
  assumes "reg_inv r" and "map_of (promote (demote r)) i = Some n"
  shows "Role n = (if i = Min (dom (reg_leases r)) then Leader else Follower)"
proof -
  have "r \<noteq> []" using assms(2) by (auto simp: promote_def demote_def)
  then have ne: "demote r \<noteq> []" by (simp add: demote_def)
  have "fst ` set (demote r) = fst ` set r" by (force simp: demote_def)
  with promote_look [OF ne] assms(2) show ?thesis by (auto simp: reg_leases_dom map_of_demote split: if_splits)
qed

lemma mem_reg_renew:
  assumes "reg_inv r" and "i \<noteq> []" and "0 < ttl"
  shows "\<exists>n r'. MemoryRegistry_Renew i ttl now r = (Inr n, r') \<and> reg_inv r'
     \<and> reg_leases r' = (live_part now (reg_leases r))(i \<mapsto> now + ttl) \<and> nID n = i \<and> nLeaseUntil n = now + ttl
     \<and> Role n = (if i = Min (dom (reg_leases r')) then Leader else Follower)"
proof -
  let ?r = "AList.update i \<lparr>nID = i, Role = Follower, LastContact = now, nLeaseUntil = now + ttl\<rparr> (prune now r)"
  let ?r' = "renewed i ttl now r"
  have r: "reg_inv ?r" by (rule reg_inv_put [OF reg_inv_prune [OF assms(1)]]) simp
  have inv: "reg_inv ?r'" unfolding renewed_def by (rule reg_inv_promote [OF reg_inv_demote [OF r]])
  have leases: "reg_leases ?r' = (live_part now (reg_leases r))(i \<mapsto> now + ttl)" "reg_leases ?r' = reg_leases ?r"
    by (simp_all add: renewed_def reg_leases_promote reg_leases_demote reg_leases_put reg_leases_prune [OF assms(1)])
  have "reg_leases ?r' i = Some (now + ttl)" using leases(1) by simp
  then obtain n where n: "map_of ?r' i = Some n" "nLeaseUntil n = now + ttl"
    by (auto simp: reg_leases_def)
  have "Role n = (if i = Min (dom (reg_leases ?r')) then Leader else Follower)"
    using promoted_role [OF r] n(1) leases(2) by (simp add: renewed_def)
  then show ?thesis
    using assms(2,3) n inv leases(1) reg_look_id [OF inv n(1)] by (simp add: MemoryRegistry_Renew_def node_at_def)
qed

lemma mem_reg_leader:
  assumes "reg_inv r"
  shows "\<exists>r'. reg_inv r' \<and> reg_leases r' = live_part now (reg_leases r)
     \<and> (if dom (live_part now (reg_leases r)) = {} then MemoryRegistry_Leader now r = (None, r')
        else \<exists>n. MemoryRegistry_Leader now r = (Some n, r') \<and> nID n = Min (dom (live_part now (reg_leases r))) \<and> Role n = Leader)"
proof (cases "sort (map fst (prune now r))")
  case Nil
  then have "prune now r = []" by (auto dest: arg_cong [of _ _ length])
  moreover from this have "dom (live_part now (reg_leases r)) = {}"
    by (simp add: reg_leases_prune [OF assms, symmetric] reg_leases_dom del: dom_eq_empty_conv)
  ultimately show ?thesis
    using Nil reg_leases_prune [OF assms, of now] reg_inv_prune [OF assms, of now] by (simp add: MemoryRegistry_Leader_def)
next
  case (Cons i js)
  let ?r = "prune now r"
  have inv: "reg_inv ?r" by (rule reg_inv_prune [OF assms])
  have dom: "dom (live_part now (reg_leases r)) = fst ` set ?r"
    by (simp add: reg_leases_prune [OF assms, symmetric] reg_leases_dom)
  have i: "i = Min (fst ` set ?r)" "i \<in> fst ` set ?r" using sort_head [OF Cons] Cons by (simp_all, metis list.set_intros(1) set_map set_sort)
  then obtain n where n: "map_of ?r i = Some n" by (auto simp: dom_map_of_conv_image_fst [symmetric])
  let ?n = "n\<lparr>Role := Leader\<rparr>"
  have id: "nID ?n = i" using reg_look_id [OF inv n] by simp
  have "reg_leases (AList.update i ?n ?r) = live_part now (reg_leases r)"
    using n by (simp add: reg_leases_put reg_leases_prune [OF assms, symmetric]) (auto simp: reg_leases_def fun_eq_iff)
  moreover have "MemoryRegistry_Leader now r = (Some ?n, AList.update i ?n ?r)"
    using Cons n by (simp add: MemoryRegistry_Leader_def node_at_def Let_def)
  ultimately show ?thesis using reg_inv_put [OF inv id] id i dom by (intro exI [of _ "AList.update i ?n ?r"]) auto
qed

lemma mem_reg_list:
  assumes "reg_inv r"
  shows "\<exists>ns r'. MemoryRegistry_List now r = (ns, r') \<and> reg_inv r' \<and> reg_leases r' = live_part now (reg_leases r)
     \<and> distinct (map nID ns) \<and> nID ` set ns = dom (live_part now (reg_leases r))
     \<and> (\<forall>n \<in> set ns. Role n = (if nID n = Min (nID ` set ns) then Leader else Follower))"
proof -
  let ?r = "prune now r" and ?r' = "promote (demote (prune now r))"
  have inv0: "reg_inv ?r" by (rule reg_inv_prune [OF assms])
  have inv: "reg_inv ?r'" by (rule reg_inv_promote [OF reg_inv_demote [OF inv0]])
  have leases: "reg_leases ?r' = live_part now (reg_leases r)" "reg_leases ?r' = reg_leases ?r"
    by (simp_all add: reg_leases_promote reg_leases_demote reg_leases_prune [OF assms])
  have dist: "distinct (map fst ?r')" using inv by (simp add: reg_inv_def)
  have ids: "map (nID \<circ> snd) ?r' = map fst ?r'"
    using dist reg_look_id [OF inv] by (intro map_cong) (auto simp: map_of_is_SomeI)
  then have keys: "nID ` snd ` set ?r' = dom (reg_leases ?r')" by (metis image_comp image_set list.set_map reg_leases_dom)
  have "Role n = (if nID n = Min (nID ` snd ` set ?r') then Leader else Follower)" if "n \<in> snd ` set ?r'" for n
  proof -
    from that obtain k where k: "map_of ?r' k = Some n" using dist by (auto intro: map_of_is_SomeI)
    with promoted_role [OF inv0 k] reg_look_id [OF inv k] keys leases(2) show ?thesis by simp
  qed
  moreover have "distinct (map nID (map snd ?r'))" using dist ids by (simp only: map_map)
  ultimately show ?thesis
    using inv leases(1) keys by (simp add: MemoryRegistry_List_def Let_def)
qed

interpretation mreg: node_registry MemoryRegistry_Renew MemoryRegistry_Leader MemoryRegistry_List reg_leases reg_inv
proof (unfold_locales, goal_cases)
  case (1 r)
  then show ?case by (simp add: reg_leases_dom)
next
  case (2 r i ttl now)
  then show ?case by (rule mem_reg_renew)
next
  case (3 i ttl now r)
  then show ?case by (auto simp: MemoryRegistry_Renew_def)
next
  case (4 r now)
  then show ?case by (rule mem_reg_leader)
next
  case (5 r now)
  then show ?case by (rule mem_reg_list)
qed

section \<open>Consequences of the contract\<close>

context node_registry
begin

text \<open>The listing and the leader query agree: exactly one listed node leads, the one the query names.\<close>

lemma leader_list:
  assumes "inv r" and "leader now r = (Some n, r1)" and "list now r = (ns, r2)"
  shows "{m \<in> set ns. Role m = Leader} = {m \<in> set ns. nID m = nID n}" and "nID n \<in> nID ` set ns"
proof -
  obtain r' where l: "leases r' = live_part now (leases r)"
    "if dom (live_part now (leases r)) = {} then leader now r = (None, r')
     else \<exists>n. leader now r = (Some n, r') \<and> nID n = Min (dom (live_part now (leases r))) \<and> Role n = Leader"
    using leader_ok [OF assms(1), of now] by blast
  with assms(2) have n: "dom (live_part now (leases r)) \<noteq> {}" "nID n = Min (dom (live_part now (leases r)))"
    by (auto split: if_splits)
  have ns: "nID ` set ns = dom (live_part now (leases r))"
    "\<forall>n \<in> set ns. Role n = (if nID n = Min (nID ` set ns) then Leader else Follower)"
    using list_ok [OF assms(1), of now] assms(3) by auto
  then have "finite (dom (live_part now (leases r)))" by (metis finite_imageI finite_set)
  with n ns show "nID n \<in> nID ` set ns" using Min_in by metis
  show "{m \<in> set ns. Role m = Leader} = {m \<in> set ns. nID m = nID n}" using n(2) ns by (auto split: if_splits)
qed

lemma leader_exists_iff:
  "inv r \<Longrightarrow> fst (leader now r) \<noteq> None \<longleftrightarrow> (\<exists>i u. leases r i = Some u \<and> now < u)"
proof -
  assume "inv r"
  moreover have "dom (live_part now (leases r)) \<noteq> {} \<longleftrightarrow> (\<exists>i u. leases r i = Some u \<and> now < u)"
    by (auto simp: live_part_def dom_def split: option.splits if_splits)
  ultimately show ?thesis using leader_ok [of r now] by (auto split: if_splits)
qed

lemma leader_least:
  assumes "inv r" and "leader now r = (Some n, r1)" and "leases r i = Some u" and "now < u"
  shows "nID n \<le> i"
proof -
  have d: "i \<in> dom (live_part now (leases r))" using assms(3,4) by (auto simp: live_part_def)
  have "finite (dom (live_part now (leases r)))" using finite_leases leader_ok [OF assms(1), of now] by metis
  then have "Min (dom (live_part now (leases r))) \<le> i" using d by (rule Min_le)
  then show ?thesis using leader_ok [OF assms(1), of now] assms(2) d by (auto split: if_splits)
qed

lemma renew_role:
  assumes "inv r" and "renew i ttl now r = (Inr n, r')"
  shows "Role n = Leader \<longleftrightarrow> (\<forall>j u. leases r j = Some u \<and> now < u \<longrightarrow> i \<le> j)" and "inv r'"
proof -
  have ok: "i \<noteq> []" "0 < ttl" using renew_refused [of i ttl now r] assms(2) by (cases "i = []"; cases "ttl \<le> 0"; auto)+
  then have n: "inv r'" "leases r' = (live_part now (leases r))(i \<mapsto> now + ttl)"
    "Role n = (if i = Min (dom (leases r')) then Leader else Follower)"
    using renew_ok [OF assms(1) ok, of now] assms(2) by auto
  then show "inv r'" by simp
  have fin: "finite (dom (leases r'))" by (rule finite_leases [OF n(1)])
  have mem: "i \<in> dom (leases r')" using n(2) by simp
  have "i = Min (dom (leases r')) \<longleftrightarrow> (\<forall>j \<in> dom (leases r'). i \<le> j)"
    using fin mem by (metis Min_eqI Min_le)
  also have "\<dots> \<longleftrightarrow> (\<forall>j u. leases r j = Some u \<and> now < u \<longrightarrow> i \<le> j)"
    unfolding n(2) by (auto simp: live_part_def dom_def split: option.splits if_splits)
  finally show "Role n = Leader \<longleftrightarrow> (\<forall>j u. leases r j = Some u \<and> now < u \<longrightarrow> i \<le> j)" using n(3) by simp
qed

end

section \<open>Properties\<close>

text \<open>C16: the registry elects one leader. A leader exists exactly when some node's lease is live; it is the
  live node with the least id; the listing shows exactly that node with the leader's role; and a renewal
  tells its node that it leads exactly when no live node has a smaller id.\<close>

theorem election_agrees:
  assumes "reg_inv r"
  shows "(fst (MemoryRegistry_Leader now r) \<noteq> None \<longleftrightarrow> (\<exists>i u. reg_leases r i = Some u \<and> now < u))
     \<and> (\<forall>n r1 ns r2. MemoryRegistry_Leader now r = (Some n, r1) \<longrightarrow> MemoryRegistry_List now r = (ns, r2) \<longrightarrow>
          nID n \<in> nID ` set ns \<and> {m \<in> set ns. Role m = Leader} = {m \<in> set ns. nID m = nID n}
          \<and> (\<forall>i u. reg_leases r i = Some u \<and> now < u \<longrightarrow> nID n \<le> i))
     \<and> (\<forall>i ttl n r'. MemoryRegistry_Renew i ttl now r = (Inr n, r') \<longrightarrow>
          reg_inv r' \<and> (Role n = Leader \<longleftrightarrow> (\<forall>j u. reg_leases r j = Some u \<and> now < u \<longrightarrow> i \<le> j)))"
proof (intro conjI allI impI, goal_cases)
  case 1 show ?case by (rule mreg.leader_exists_iff [OF assms])
next
  case 2 then show ?case by (rule mreg.leader_list(2) [OF assms])
next
  case 3 then show ?case by (rule mreg.leader_list(1) [OF assms])
next
  case 4 then show ?case by (auto intro: mreg.leader_least [OF assms])
next
  case 5 then show ?case by (rule mreg.renew_role(2) [OF assms])
next
  case 6 then show ?case by (rule mreg.renew_role(1) [OF assms])
qed

theorem election_agrees_witness:
  "\<exists>n. fst (MemoryRegistry_Leader 5 (snd (MemoryRegistry_Renew ''b'' 10 1 (snd (MemoryRegistry_Renew ''a'' 10 0 NewMemoryRegistry)))))
     = Some n"
proof -
  let ?r = "snd (MemoryRegistry_Renew ''b'' 10 1 (snd (MemoryRegistry_Renew ''a'' 10 0 NewMemoryRegistry)))"
  have e: "reg_inv NewMemoryRegistry" by (simp add: reg_inv_def NewMemoryRegistry_def)
  obtain n1 r1 where 1: "MemoryRegistry_Renew ''a'' 10 0 NewMemoryRegistry = (Inr n1, r1)" "reg_inv r1"
    using mreg.renew_ok [OF e, of "''a''" 10 0] by auto
  obtain n2 r2 where 2: "MemoryRegistry_Renew ''b'' 10 1 r1 = (Inr n2, r2)" "reg_inv r2"
      "reg_leases r2 = (live_part 1 (reg_leases r1))(''b'' \<mapsto> 1 + 10)"
    using mreg.renew_ok [OF 1(2), of "''b''" 10 1] by auto
  have "reg_leases r2 ''b'' = Some 11" using 2(3) by simp
  then have "\<exists>i u. reg_leases r2 i = Some u \<and> 5 < u" by (intro exI [of _ "''b''"] exI [of _ 11]) simp
  then have "fst (MemoryRegistry_Leader 5 r2) \<noteq> None" using election_agrees [OF 2(2), of 5] by blast
  with 1(1) 2(1) show ?thesis by auto
qed

text \<open>The leader gate asks the elector's cached node. A node that renewed while it was alone keeps
  answering that it leads after a node with a smaller id has joined and leads too, until its own next
  renewal; and it keeps that answer for as long as its renewals fail, whatever the time is.\<close>

theorem cached_leaders_overlap:
  "\<exists>a0 b0 a b r r'. NewElector False ''a'' 10 = Inr a0 \<and> NewElector False ''b'' 10 = Inr b0
     \<and> Elector_Start MemoryRegistry_Renew 0 b0 NewMemoryRegistry = (b, r)
     \<and> Elector_Start MemoryRegistry_Renew 1 a0 r = (a, r')
     \<and> Elector_IsLeader a \<and> Elector_IsLeader b
     \<and> (\<forall>now err q. Elector_IsLeader (fst (Elector_renew (\<lambda>_ _ _ q. (Inl err, q)) now b (q :: nodes))))"
proof -
  let ?e = "\<lambda>i. \<lparr>eid = i, ettl = 10, enode = zero_node, estarted = False\<rparr>"
  let ?b = "Elector_Start MemoryRegistry_Renew 0 (?e ''b'') NewMemoryRegistry"
  let ?a = "Elector_Start MemoryRegistry_Renew 1 (?e ''a'') (snd ?b)"
  have "Elector_IsLeader (fst ?a)" "Elector_IsLeader (fst ?b)" by code_simp+
  moreover have "NewElector False ''a'' 10 = Inr (?e ''a'')" "NewElector False ''b'' 10 = Inr (?e ''b'')"
    by (simp_all add: NewElector_def)
  moreover have "Elector_renew (\<lambda>_ _ _ q. (Inl err, q)) now (fst ?b) q = (fst ?b, q)" for now err and q :: nodes
    by (simp add: Elector_renew_def)
  ultimately show ?thesis by (metis fst_conv prod.collapse)
qed

end
