(* ===== verification/Consensus.thy ===== *)
theory Consensus
  imports JobRaft_Prelude "HOL-Library.Multiset"
begin

text \<open>
  The replicated log of \<^verbatim>\<open>src/internal/cluster/consensus.go\<close>. All members of all groups live in one registry,
  keyed by \<^verbatim>\<open>group/id\<close>; a pointer to a member is its key here. The state machine a member replicates is
  code of the user: \<open>mapply\<close> is its \<^verbatim>\<open>Apply\<close>, an argument of the definitions, which may fail and
  changes the machine's state of type \<open>'m\<close>. Terms and indices are 64-bit unsigned.
\<close>

section \<open>Data\<close>

record log_entry =
  Term :: "64 word"
  Index :: "64 word"
  Command :: "char slice"
  CommittedAt :: gtime

record 'm consensus_group =
  cid :: string
  cgroup :: string
  cterm :: "64 word"
  ccommit :: "64 word"
  clog :: "log_entry list"
  machine :: 'm

record 'm consensus_registry =
  groups :: "(string, 'm consensus_group) gmap"
  cleases :: "(string, gtime) gmap"

definition ckey :: "string \<Rightarrow> string \<Rightarrow> string" where
  "ckey g i = g @ ''/'' @ i"

definition NewConsensusRegistry :: "'m consensus_registry" where
  "NewConsensusRegistry = \<lparr>groups = [], cleases = []\<rparr>"

section \<open>The operations\<close>

definition ConsensusRegistry_Join ::
  "string \<Rightarrow> string \<Rightarrow> 'm option \<Rightarrow> 'm consensus_registry \<Rightarrow> (error + string) \<times> 'm consensus_registry" where
  "ConsensusRegistry_Join g i mach r =
     (case mach of
        None \<Rightarrow> (Inl (ErrNew ''group, node id and state machine are required''), r)
      | Some mc \<Rightarrow>
          if g = [] \<or> i = [] then (Inl (ErrNew ''group, node id and state machine are required''), r)
          else let key = ckey g i in
            if map_of (groups r) key \<noteq> None then (Inr key, r)
            else (Inr key, r\<lparr>groups := AList.update key
                   \<lparr>cid = i, cgroup = g, cterm = 0, ccommit = 0, clog = [], machine = mc\<rparr> (groups r)\<rparr>))"

definition ConsensusRegistry_members :: "string \<Rightarrow> 'm consensus_registry \<Rightarrow> (string \<times> 'm consensus_group) list" where
  "ConsensusRegistry_members g r =
     sort_key (\<lambda>e. cid (snd e))
       (filter (\<lambda>e. length (fst e) > length g \<and> take (length g + 1) (fst e) = g @ ''/'') (groups r))"

definition lease_at :: "'m consensus_registry \<Rightarrow> string \<Rightarrow> gtime" where
  "lease_at r key = (case map_of (cleases r) key of None \<Rightarrow> 0 | Some u \<Rightarrow> u)"

definition better ::
  "string \<times> 'm consensus_group \<Rightarrow> (string \<times> 'm consensus_group) option \<Rightarrow> bool" where
  "better e best = (case best of None \<Rightarrow> True | Some b \<Rightarrow> cid (snd e) < cid (snd b))"

definition ConsensusRegistry_leader :: "string \<Rightarrow> gtime \<Rightarrow> 'm consensus_registry \<Rightarrow> string option" where
  "ConsensusRegistry_leader g now r =
     map_option fst (fold (\<lambda>e best. if now < lease_at r (ckey g (cid (snd e))) \<and> better e best then Some e else best)
       (ConsensusRegistry_members g r) None)"

definition ConsensusGroup_Renew ::
  "string \<Rightarrow> duration \<Rightarrow> gtime \<Rightarrow> 'm consensus_registry \<Rightarrow> error option \<times> 'm consensus_registry" where
  "ConsensusGroup_Renew key ttl now r =
     (if ttl \<le> 0 then (Some (ErrNew ''positive ttl required''), r)
      else case map_of (groups r) key of
             None \<Rightarrow> (None, r)
           | Some c \<Rightarrow> (None, r\<lparr>cleases := AList.update (ckey (cgroup c) (cid c)) (now + ttl) (cleases r)\<rparr>))"

definition ConsensusGroup_IsLeader :: "string \<Rightarrow> gtime \<Rightarrow> 'm consensus_registry \<Rightarrow> bool" where
  "ConsensusGroup_IsLeader key now r =
     (case map_of (groups r) key of None \<Rightarrow> False | Some c \<Rightarrow> ConsensusRegistry_leader (cgroup c) now r = Some key)"

text \<open>The loop that offers the entry to every member's machine: the machines that accepted it, and all machines
  afterwards.\<close>

fun offer ::
  "(log_entry \<Rightarrow> 'm \<Rightarrow> error option \<times> 'm) \<Rightarrow> log_entry \<Rightarrow> string list \<Rightarrow> (string, 'm consensus_group) gmap
   \<Rightarrow> string list \<times> (string, 'm consensus_group) gmap" where
  "offer mapply entry [] gs = ([], gs)"
| "offer mapply entry (k # ks) gs =
     (case map_of gs k of
        None \<Rightarrow> offer mapply entry ks gs
      | Some c \<Rightarrow>
          (let (err, mc) = mapply entry (machine c);
               (applied, gs') = offer mapply entry ks (AList.update k (c\<lparr>machine := mc\<rparr>) gs)
           in (if err = None then (k # applied, gs') else (applied, gs'))))"

definition commit_entry :: "log_entry \<Rightarrow> 'm consensus_group \<Rightarrow> 'm consensus_group" where
  "commit_entry entry c = c\<lparr>clog := clog c @ [entry], ccommit := Index entry, cterm := Term entry\<rparr>"

definition commit_step :: "log_entry \<Rightarrow> string \<Rightarrow> (string, 'm consensus_group) gmap \<Rightarrow> (string, 'm consensus_group) gmap" where
  "commit_step entry k gs =
     (case map_of gs k of None \<Rightarrow> gs | Some c \<Rightarrow> AList.update k (commit_entry entry c) gs)"

definition ConsensusGroup_Apply ::
  "(log_entry \<Rightarrow> 'm \<Rightarrow> error option \<times> 'm) \<Rightarrow> string \<Rightarrow> char slice \<Rightarrow> clock \<Rightarrow> 'm consensus_registry
   \<Rightarrow> (error + log_entry) \<times> 'm consensus_registry" where
  "ConsensusGroup_Apply mapply key command clk r =
     (case map_of (groups r) key of
        None \<Rightarrow> (Inl (ErrNew ''not leader''), r)
      | Some c \<Rightarrow>
          if ConsensusRegistry_leader (cgroup c) (clk 0) r \<noteq> Some key then (Inl (ErrNew ''not leader''), r)
          else
            (let members = map fst (ConsensusRegistry_members (cgroup c) r);
                 c' = c\<lparr>cterm := cterm c + 1\<rparr>;
                 entry = \<lparr>Term = cterm c', Index = ccommit c' + 1, Command = append_nil command, CommittedAt = clk 1\<rparr>;
                 (applied, gs) = offer mapply entry members (AList.update key c' (groups r)) in
             if length applied * 2 \<le> length members
             then (Inl (ErrNew ''quorum unavailable''), r\<lparr>groups := gs\<rparr>)
             else (Inr entry, r\<lparr>groups := fold (commit_step entry) applied gs\<rparr>)))"

section \<open>Lemmas\<close>

lemma members_keys:
  assumes "distinct (map fst (groups r))"
  shows "distinct (map fst (ConsensusRegistry_members g r))"
    and "e \<in> set (ConsensusRegistry_members g r) \<Longrightarrow> map_of (groups r) (fst e) = Some (snd e)"
proof -
  let ?xs = "filter (\<lambda>e. length (fst e) > length g \<and> take (length g + 1) (fst e) = g @ ''/'') (groups r)"
  have m: "mset (map fst (ConsensusRegistry_members g r)) = mset (map fst ?xs)"
    by (simp add: ConsensusRegistry_members_def mset_map)
  have "distinct (map fst ?xs)" using assms by (rule distinct_map_filter)
  then show "distinct (map fst (ConsensusRegistry_members g r))" using mset_eq_imp_distinct_iff [OF m] by blast
  show "map_of (groups r) (fst e) = Some (snd e)" if "e \<in> set (ConsensusRegistry_members g r)"
    using that assms by (simp add: ConsensusRegistry_members_def)
qed

text \<open>Offering an entry touches machines only.\<close>

lemma offer_keeps:
  assumes "distinct ks" and "offer mapply entry ks gs = (applied, gs')"
  shows "map_of gs' k = (if k \<in> set ks
           then map_option (\<lambda>c. c\<lparr>machine := snd (mapply entry (machine c))\<rparr>) (map_of gs k) else map_of gs k)"
  using assms
proof (induction ks arbitrary: gs applied gs')
  case (Cons j ks)
  show ?case
  proof (cases "map_of gs j")
    case None
    then show ?thesis using Cons by auto
  next
    case (Some c)
    obtain err mc where a: "mapply entry (machine c) = (err, mc)" by fastforce
    obtain ap where o: "offer mapply entry ks (AList.update j (c\<lparr>machine := mc\<rparr>) gs) = (ap, gs')"
      using Cons.prems(2) Some a by (auto simp: Let_def split: prod.splits if_splits)
    from Cons.IH [OF _ o] Cons.prems(1) Some a show ?thesis by (auto simp: gmap_simps)
  qed
qed simp

lemma offer_applied:
  assumes "distinct ks" and "offer mapply entry ks gs = (applied, gs')"
  shows "distinct applied \<and> set applied = {k \<in> set ks. \<exists>c. map_of gs k = Some c \<and> fst (mapply entry (machine c)) = None}"
  using assms
proof (induction ks arbitrary: gs applied gs')
  case (Cons j ks)
  show ?case
  proof (cases "map_of gs j")
    case None
    then show ?thesis using Cons by auto
  next
    case (Some c)
    obtain err mc where a: "mapply entry (machine c) = (err, mc)" by fastforce
    obtain ap where o: "offer mapply entry ks (AList.update j (c\<lparr>machine := mc\<rparr>) gs) = (ap, gs')"
      and ap: "applied = (if err = None then j # ap else ap)"
      using Cons.prems(2) Some a by (auto simp: Let_def split: prod.splits if_splits)
    have "distinct ap \<and> set ap = {k \<in> set ks. \<exists>c. map_of gs k = Some c \<and> fst (mapply entry (machine c)) = None}"
      using Cons.IH [OF _ o] Cons.prems(1) by (auto simp: gmap_simps)
    with ap Some a Cons.prems(1) show ?thesis by auto
  qed
qed simp

lemma map_of_commit:
  "distinct ks \<Longrightarrow> map_of (fold (commit_step entry) ks gs) k
     = (if k \<in> set ks then map_option (commit_entry entry) (map_of gs k) else map_of gs k)"
proof (induction ks arbitrary: gs)
  case (Cons j ks)
  then show ?case by (auto simp: commit_step_def gmap_simps split: option.split)
qed simp

text \<open>What a call of \<^verbatim>\<open>Apply\<close> by the leader comes to.\<close>

lemma apply_cases:
  assumes "distinct (map fst (groups r))" and "ConsensusGroup_Apply mapply key command clk r = (res, r')"
    and c: "map_of (groups r) key = Some c" and lead: "ConsensusRegistry_leader (cgroup c) (clk 0) r = Some key"
  defines "ks \<equiv> map fst (ConsensusRegistry_members (cgroup c) r)"
    and "entry \<equiv> \<lparr>Term = cterm c + 1, Index = ccommit c + 1, Command = append_nil command, CommittedAt = clk 1\<rparr>"
  obtains (quorum) applied where "distinct applied" and "length ks < length applied * 2" and "res = Inr entry"
      and "set applied = {k \<in> set ks. \<exists>d. map_of (groups r) k = Some d \<and> fst (mapply entry (machine d)) = None}"
      and "\<And>k. map_option clog (map_of (groups r') k) = map_option (\<lambda>d. if k \<in> set applied then clog d @ [entry] else clog d) (map_of (groups r) k)"
      and "\<And>k. map_option ccommit (map_of (groups r') k) = map_option (\<lambda>d. if k \<in> set applied then Index entry else ccommit d) (map_of (groups r) k)"
      and "\<And>k. map_option cterm (map_of (groups r') k)
         = map_option (\<lambda>d. if k \<in> set applied then Term entry else if k = key then cterm c + 1 else cterm d) (map_of (groups r) k)"
  | (refused) e where "res = Inl e"
      and "card {k \<in> set ks. \<exists>d. map_of (groups r) k = Some d \<and> fst (mapply entry (machine d)) = None} * 2 \<le> length ks"
      and "\<And>k. map_option clog (map_of (groups r') k) = map_option clog (map_of (groups r) k)"
      and "\<And>k. map_option ccommit (map_of (groups r') k) = map_option ccommit (map_of (groups r) k)"
proof -
  let ?c = "c\<lparr>cterm := cterm c + 1\<rparr>" and ?gs = "AList.update key (c\<lparr>cterm := cterm c + 1\<rparr>) (groups r)"
  have dk: "distinct ks" unfolding ks_def by (rule members_keys(1) [OF assms(1)])
  obtain applied gs where o: "offer mapply entry ks ?gs = (applied, gs)" by fastforce
  have up: "map_of ?gs k = (if k = key then Some ?c else map_of (groups r) k)" for k by (simp add: gmap_simps)
  note kept = offer_keeps [OF dk o]
  have fields: "map_option clog (map_of gs k) = map_option clog (map_of (groups r) k)"
    "map_option ccommit (map_of gs k) = map_option ccommit (map_of (groups r) k)"
    "map_option cterm (map_of gs k) = map_option (\<lambda>d. if k = key then cterm c + 1 else cterm d) (map_of (groups r) k)" for k
    using kept [of k] c by (auto simp: up option.map_comp comp_def)
  have "(\<exists>d. map_of ?gs k = Some d \<and> fst (mapply entry (machine d)) = None)
      \<longleftrightarrow> (\<exists>d. map_of (groups r) k = Some d \<and> fst (mapply entry (machine d)) = None)" for k
    using c by (simp add: up)
  then have ap: "distinct applied" "set applied = {k \<in> set ks. \<exists>d. map_of (groups r) k = Some d \<and> fst (mapply entry (machine d)) = None}"
    using offer_applied [OF dk o] by simp_all
  have body: "(res, r') = (if length applied * 2 \<le> length ks then (Inl (ErrNew ''quorum unavailable''), r\<lparr>groups := gs\<rparr>)
       else (Inr entry, r\<lparr>groups := fold (commit_step entry) applied gs\<rparr>))"
    using assms(2) c lead o by (auto simp: ConsensusGroup_Apply_def Let_def ks_def entry_def split: if_splits)
  show thesis
  proof (cases "length applied * 2 \<le> length ks")
    case True
    then have "card (set applied) * 2 \<le> length ks" using distinct_card [OF ap(1)] by simp
    moreover have "res = Inl (ErrNew ''quorum unavailable'')" "groups r' = gs" using body True by simp_all
    ultimately show thesis using refused [of "ErrNew ''quorum unavailable''"] fields(1,2) ap(2) by simp
  next
    case False
    have look: "map_of (groups r') k = (if k \<in> set applied then map_option (commit_entry entry) (map_of gs k) else map_of gs k)" for k
      using body False map_of_commit [OF ap(1), of entry gs k] by simp
    have "map_option clog (map_of (groups r') k) = map_option (\<lambda>d. if k \<in> set applied then clog d @ [entry] else clog d) (map_of (groups r) k)"
      "map_option ccommit (map_of (groups r') k) = map_option (\<lambda>d. if k \<in> set applied then Index entry else ccommit d) (map_of (groups r) k)"
      "map_option cterm (map_of (groups r') k)
         = map_option (\<lambda>d. if k \<in> set applied then Term entry else if k = key then cterm c + 1 else cterm d) (map_of (groups r) k)" for k
      using fields [of k] by (cases "map_of gs k"; cases "map_of (groups r) k"; auto simp: look commit_entry_def)+
    with quorum [OF ap(1) _ _ ap(2)] body False show thesis by simp
  qed
qed


section \<open>Properties\<close>

text \<open>An entry that \<^verbatim>\<open>Apply\<close> reports as committed was proposed by the leader of its group and is
  the last entry in the logs of a strict majority of the members; every log only ever grows by that
  entry. When \<^verbatim>\<open>Apply\<close> reports an error, no log and no commit index has changed.\<close>

theorem apply_quorum:
  assumes "distinct (map fst (groups r))" and "ConsensusGroup_Apply mapply key command clk r = (res, r')"
  shows "(\<forall>k. map_of (groups r) k = None \<longleftrightarrow> map_of (groups r') k = None)
     \<and> (case res of
          Inl e \<Rightarrow> \<forall>k. map_option (\<lambda>c. (clog c, ccommit c)) (map_of (groups r') k)
                     = map_option (\<lambda>c. (clog c, ccommit c)) (map_of (groups r) k)
        | Inr entry \<Rightarrow> \<exists>c. map_of (groups r) key = Some c \<and> ConsensusGroup_IsLeader key (clk 0) r
            \<and> length (ConsensusRegistry_members (cgroup c) r)
                < 2 * card {k \<in> fst ` set (ConsensusRegistry_members (cgroup c) r).
                     \<exists>d d'. map_of (groups r) k = Some d \<and> map_of (groups r') k = Some d'
                       \<and> clog d' = clog d @ [entry] \<and> ccommit d' = Index entry}
            \<and> (\<forall>k d. map_of (groups r) k = Some d \<longrightarrow>
                 (\<exists>d'. map_of (groups r') k = Some d' \<and> (clog d' = clog d \<or> clog d' = clog d @ [entry]))))"
proof (cases "\<exists>c. map_of (groups r) key = Some c \<and> ConsensusRegistry_leader (cgroup c) (clk 0) r = Some key")
  case False
  then have "r' = r" "\<exists>e. res = Inl e"
    using assms(2) by (auto simp: ConsensusGroup_Apply_def split: option.splits if_splits)
  then show ?thesis by auto
next
  case True
  then obtain c where c: "map_of (groups r) key = Some c" "ConsensusRegistry_leader (cgroup c) (clk 0) r = Some key" by blast
  let ?e = "\<lparr>Term = cterm c + 1, Index = ccommit c + 1, Command = append_nil command, CommittedAt = clk 1\<rparr>"
  let ?ks = "fst ` set (ConsensusRegistry_members (cgroup c) r)"
  show ?thesis
  proof (rule apply_cases [OF assms c], goal_cases)
    case (2 e)
    have "map_of (groups r) k = None \<longleftrightarrow> map_of (groups r') k = None" for k using 2(3) [of k] by auto
    moreover have "map_option (\<lambda>c. (clog c, ccommit c)) (map_of (groups r') k) = map_option (\<lambda>c. (clog c, ccommit c)) (map_of (groups r) k)" for k
      using 2(3,4) [of k] by (cases "map_of (groups r) k"; cases "map_of (groups r') k") auto
    ultimately show ?case using 2(1) by simp
  next
    case (1 applied)
    let ?won = "{k \<in> ?ks. \<exists>d d'. map_of (groups r) k = Some d \<and> map_of (groups r') k = Some d'
                       \<and> clog d' = clog d @ [?e] \<and> ccommit d' = Index ?e}"
    have each: "\<exists>d'. map_of (groups r') k = Some d' \<and> clog d' = (if k \<in> set applied then clog d @ [?e] else clog d)
        \<and> ccommit d' = (if k \<in> set applied then Index ?e else ccommit d)" if k: "map_of (groups r) k = Some d" for k d
    proof -
      obtain d' where "map_of (groups r') k = Some d'" using 1(5) [of k] k by (cases "map_of (groups r') k") simp_all
      then show ?thesis using 1(5,6) [of k] k by simp
    qed
    have "k \<in> ?won" if "k \<in> set applied" for k
    proof -
      from that 1(4) obtain d where "k \<in> ?ks" "map_of (groups r) k = Some d" by auto
      with each [OF this(2)] that show ?thesis by auto
    qed
    then have "set applied \<subseteq> ?won" by blast
    then have "card (set applied) \<le> card ?won" by (rule card_mono [rotated]) simp
    then have "length applied \<le> card ?won" using distinct_card [OF 1(1)] by simp
    then have maj: "length (ConsensusRegistry_members (cgroup c) r) < 2 * card ?won" using 1(2) by simp
    have "map_of (groups r) k = None \<longleftrightarrow> map_of (groups r') k = None" for k using 1(5) [of k] by auto
    moreover have "\<exists>d'. map_of (groups r') k = Some d' \<and> (clog d' = clog d \<or> clog d' = clog d @ [?e])"
      if "map_of (groups r) k = Some d" for k d using each [OF that] by (auto split: if_splits)
    moreover have "ConsensusGroup_IsLeader key (clk 0) r" using c by (simp add: ConsensusGroup_IsLeader_def)
    ultimately show ?case using c(1) maj unfolding 1(3) sum.case by blast
  qed
qed

text \<open>A registry with three members of which the first one's machine rejects every entry.\<close>

definition reject_or_accept :: "log_entry \<Rightarrow> bool \<Rightarrow> error option \<times> bool" where
  "reject_or_accept entry ok = (if ok then None else Some (ErrNew ''rejected''), ok)"

definition trio :: "bool consensus_registry" where
  "trio = snd (ConsensusGroup_Renew ''g/a'' 10 1
     (snd (ConsensusRegistry_Join ''g'' ''c'' (Some True) (snd (ConsensusRegistry_Join ''g'' ''b'' (Some True)
       (snd (ConsensusRegistry_Join ''g'' ''a'' (Some False) NewConsensusRegistry)))))))"


lemma trio_distinct: "distinct (map fst (groups trio))" by code_simp

theorem apply_quorum_witness:
  "\<exists>entry r'. ConsensusGroup_Apply reject_or_accept ''g/a'' None (\<lambda>_. 2) trio = (Inr entry, r')
     \<and> ConsensusGroup_IsLeader ''g/a'' 2 trio"
proof -
  have "map_sum (\<lambda>_. ()) Index (fst (ConsensusGroup_Apply reject_or_accept ''g/a'' None (\<lambda>_. 2) trio)) = Inr 1" by code_simp
  then obtain entry r' where a: "ConsensusGroup_Apply reject_or_accept ''g/a'' None (\<lambda>_. 2) trio = (Inr entry, r')"
    by (metis Inr_Inl_False map_sum.simps(1) old.sum.exhaust prod.collapse)
  with apply_quorum [OF trio_distinct a] show ?thesis by auto
qed






text \<open>When the leader's own machine rejects an entry that a majority accepts, the entry is committed but
  the leader's commit index does not move, so its next entry is committed under the same index.\<close>

theorem index_reused:
  "\<exists>e1 r1 e2 r2 b. ConsensusGroup_Apply reject_or_accept ''g/a'' (Some ''x'') (\<lambda>_. 2) trio = (Inr e1, r1)
     \<and> ConsensusGroup_Apply reject_or_accept ''g/a'' (Some ''y'') (\<lambda>_. 3) r1 = (Inr e2, r2)
     \<and> map_of (groups r2) ''g/b'' = Some b \<and> clog b = [e1, e2] \<and> Index e1 = Index e2 \<and> Command e1 \<noteq> Command e2"
proof -
  let ?a1 = "ConsensusGroup_Apply reject_or_accept ''g/a'' (Some ''x'') (\<lambda>_. 2) trio"
  let ?a2 = "ConsensusGroup_Apply reject_or_accept ''g/a'' (Some ''y'') (\<lambda>_. 3) (snd ?a1)"
  let ?e1 = "\<lparr>Term = 1, Index = 1, Command = Some ''x'', CommittedAt = 2\<rparr>"
  let ?e2 = "\<lparr>Term = 2, Index = 1, Command = Some ''y'', CommittedAt = 3\<rparr>"
  have "fst ?a1 = Inr ?e1" "fst ?a2 = Inr ?e2" "map_option clog (map_of (groups (snd ?a2)) ''g/b'') = Some [?e1, ?e2]"
    by code_simp+
  then obtain b where "?a1 = (Inr ?e1, snd ?a1)" "?a2 = (Inr ?e2, snd ?a2)" "map_of (groups (snd ?a2)) ''g/b'' = Some b" "clog b = [?e1, ?e2]"
    by (auto simp: prod_eq_iff)
  then show ?thesis by (intro exI [of _ ?e1] exI [of _ "snd ?a1"] exI [of _ ?e2] exI [of _ "snd ?a2"] exI [of _ b]) simp
qed

end
