(* ===== verification/Filesystem.thy ===== *)
theory Filesystem
  imports JobRaft_Prelude
begin

text \<open>
  The files the program reads and writes, and \<^verbatim>\<open>fileutil.Replace\<close> of \<^verbatim>\<open>src/internal/fileutil/replace.go\<close>.

  A file is missing, empty, or holds bytes of some type \<open>'d\<close>; a write that fails half-way leaves a torn
  file. Every call of the operating system may fail: the list \<open>faults\<close> decides call by call, and
  calls beyond its end succeed. A failed rename or removal changes nothing. That a platform refuses to rename
  over an existing file is such a fault.
\<close>

datatype 'd content = Empty | Bytes 'd | Torn

record 'd fsys =
  files :: "(string, 'd content) gmap"
  faults :: "bool list"

definition fault :: "'d fsys \<Rightarrow> bool \<times> 'd fsys" where
  "fault fs = (case faults fs of [] \<Rightarrow> (False, fs) | b # bs \<Rightarrow> (b, fs\<lparr>faults := bs\<rparr>))"

text \<open>\<open>Inr None\<close> stands for the error that \<^verbatim>\<open>os.IsNotExist\<close> recognises.\<close>

definition ReadFile :: "string \<Rightarrow> 'd fsys \<Rightarrow> (error + 'd content option) \<times> 'd fsys" where
  "ReadFile p fs =
     (let (bad, fs') = fault fs in
      (if bad then Inl (ErrIO ''read failed'') else Inr (map_of (files fs') p), fs'))"

definition WriteFile :: "string \<Rightarrow> 'd content \<Rightarrow> 'd fsys \<Rightarrow> error option \<times> 'd fsys" where
  "WriteFile p c fs =
     (let (bad, fs') = fault fs in
      if bad then (Some (ErrIO ''write failed''), fs'\<lparr>files := AList.update p Torn (files fs')\<rparr>)
      else (None, fs'\<lparr>files := AList.update p c (files fs')\<rparr>))"

text \<open>The JSON encoder and decoder, an argument of the definitions that use them: \<open>marshal\<close> may fail (a raw
  message that is not JSON, a year beyond 9999). The documented behaviour on Go maps is that what was
  encoded decodes to the same map.\<close>

record ('v, 'd) codec =
  marshal :: "'v \<Rightarrow> error + 'd"
  unmarshal :: "'d \<Rightarrow> error + 'v"

definition faithful :: "(('k, 'v) gmap, 'd) codec \<Rightarrow> bool" where
  "faithful cd \<longleftrightarrow> (\<forall>m b. marshal cd m = Inr b \<longrightarrow> (\<exists>m'. unmarshal cd b = Inr m' \<and> map_of m' = map_of m \<and> distinct (map fst m')))"

datatype os_result = Done | NotExist | OSFail

definition Rename :: "string \<Rightarrow> string \<Rightarrow> 'd fsys \<Rightarrow> os_result \<times> 'd fsys" where
  "Rename src dst fs =
     (let (bad, fs') = fault fs in
      if bad then (OSFail, fs')
      else case map_of (files fs') src of
             None \<Rightarrow> (NotExist, fs')
           | Some c \<Rightarrow> (Done, fs'\<lparr>files := AList.update dst c (AList.delete src (files fs'))\<rparr>))"

definition Remove :: "string \<Rightarrow> 'd fsys \<Rightarrow> os_result \<times> 'd fsys" where
  "Remove p fs =
     (let (bad, fs') = fault fs in
      if bad then (OSFail, fs')
      else if map_of (files fs') p = None then (NotExist, fs')
      else (Done, fs'\<lparr>files := AList.delete p (files fs')\<rparr>))"

definition os_error :: "os_result \<Rightarrow> error option" where
  "os_error r = (case r of Done \<Rightarrow> None | NotExist \<Rightarrow> Some (ErrIO ''file does not exist'') | OSFail \<Rightarrow> Some (ErrIO ''operation failed''))"

definition Replace :: "string \<Rightarrow> string \<Rightarrow> 'd fsys \<Rightarrow> error option \<times> 'd fsys" where
  "Replace src dst fs =
     (let (r1, fs1) = Rename src dst fs in
      if r1 = Done then (None, fs1)
      else let backup = dst @ ''.bak'';
               (_, fs2) = Remove backup fs1;
               (r3, fs3) = Rename dst backup fs2 in
        if r3 = NotExist then let (r4, fs4) = Rename src dst fs3 in (os_error r4, fs4)
        else if r3 = OSFail then (os_error r3, fs3)
        else let (r4, fs4) = Rename src dst fs3 in
          if r4 \<noteq> Done then let (_, fs5) = Rename backup dst fs4 in (os_error r4, fs5)
          else let (r5, fs5) = Remove backup fs4 in (os_error r5, fs5))"

section \<open>Lemmas\<close>

definition at :: "'d fsys \<Rightarrow> string \<Rightarrow> 'd content option" where
  "at fs p = map_of (files fs) p"

definition healthy :: "'d fsys \<Rightarrow> bool" where
  "healthy fs \<longleftrightarrow> True \<notin> set (faults fs)"

lemma fault_files [simp]: "files (snd (fault fs)) = files fs"
  by (simp add: fault_def split: list.split)

lemma fault_healthy: "healthy fs \<Longrightarrow> fst (fault fs) = False \<and> healthy (snd (fault fs))"
  by (auto simp: fault_def healthy_def split: list.splits)

lemma rename_cases:
  obtains "fst (Rename src dst fs) = Done" and "at fs src \<noteq> None"
    and "at (snd (Rename src dst fs)) = ((at fs)(src := None))(dst := at fs src)"
  | "fst (Rename src dst fs) = NotExist" and "at fs src = None" and "at (snd (Rename src dst fs)) = at fs"
  | "fst (Rename src dst fs) = OSFail" and "at (snd (Rename src dst fs)) = at fs"
proof (cases "fault fs")
  case (Pair bad fs')
  have f: "files fs' = files fs" using fault_files [of fs] Pair by simp
  show thesis
  proof (cases bad)
    case True
    with Pair f show thesis by (intro that(3)) (simp_all add: Rename_def at_def fun_eq_iff)
  next
    case ok: False
    show thesis
    proof (cases "map_of (files fs) src")
      case None
      with Pair ok f show thesis by (intro that(2)) (simp_all add: Rename_def at_def fun_eq_iff)
    next
      case (Some c)
      with Pair ok f show thesis by (intro that(1)) (auto simp: Rename_def at_def fun_eq_iff gmap_simps)
    qed
  qed
qed

lemma remove_at: "at (snd (Remove p fs)) = at fs \<or> at (snd (Remove p fs)) = (at fs)(p := None)"
  by (cases "fault fs") (use fault_files [of fs] in \<open>auto simp: Remove_def at_def fun_eq_iff gmap_simps\<close>)

lemma rename_healthy:
  assumes "healthy fs" and "at fs src = Some c"
  shows "\<exists>fs'. Rename src dst fs = (Done, fs') \<and> healthy fs' \<and> at fs' = ((at fs)(src := None))(dst \<mapsto> c)"
proof -
  obtain bad fs' where f: "fault fs = (bad, fs')" by fastforce
  with fault_healthy [OF assms(1)] fault_files [of fs] assms(2) show ?thesis
    by (auto simp: Rename_def at_def fun_eq_iff gmap_simps healthy_def)
qed

lemma write_healthy:
  assumes "healthy fs"
  shows "\<exists>fs'. WriteFile p c fs = (None, fs') \<and> healthy fs' \<and> at fs' = (at fs)(p \<mapsto> c)"
proof -
  obtain bad fs' where f: "fault fs = (bad, fs')" by fastforce
  with fault_healthy [OF assms] fault_files [of fs] show ?thesis
    by (auto simp: WriteFile_def at_def fun_eq_iff gmap_simps healthy_def)
qed

lemma replace_healthy:
  assumes "healthy fs" and "at fs src = Some c" and "src \<noteq> dst"
  shows "\<exists>fs'. Replace src dst fs = (None, fs') \<and> healthy fs' \<and> at fs' = ((at fs)(src := None))(dst \<mapsto> c)"
  using rename_healthy [OF assms(1,2), of dst] by (auto simp: Replace_def)

lemma rename_result:
  assumes "Rename src dst fs = (r, fs')"
  shows "r = Done \<and> at fs src \<noteq> None \<and> at fs' = ((at fs)(src := None))(dst := at fs src)
     \<or> r = NotExist \<and> at fs src = None \<and> at fs' = at fs \<or> r = OSFail \<and> at fs' = at fs"
  by (rule rename_cases [of src dst fs]) (use assms in auto)

lemma remove_result: "Remove p fs = (r, fs') \<Longrightarrow> at fs' = at fs \<or> at fs' = (at fs)(p := None)"
  using remove_at [of p fs] by simp

text \<open>The branch of \<^verbatim>\<open>Replace\<close> behind a failed first rename.\<close>

lemma replace_slow:
  assumes "Rename src dst fs = (r1, fs1)" and "r1 \<noteq> Done" and "Replace src dst fs = (err, fs')"
  obtains fs2 r3 fs3 r4 fs4 where "at fs2 = at fs \<or> at fs2 = (at fs)(dst @ ''.bak'' := None)"
    and "Rename dst (dst @ ''.bak'') fs2 = (r3, fs3)" and "Rename src dst fs3 = (r4, fs4)"
    and "r3 = OSFail \<and> err \<noteq> None \<and> fs' = fs3
       \<or> r3 = NotExist \<and> err = os_error r4 \<and> fs' = fs4
       \<or> r3 = Done \<and> r4 \<noteq> Done \<and> err \<noteq> None \<and> fs' = snd (Rename (dst @ ''.bak'') dst fs4)
       \<or> r3 = Done \<and> r4 = Done \<and> err = os_error (fst (Remove (dst @ ''.bak'') fs4)) \<and> fs' = snd (Remove (dst @ ''.bak'') fs4)"
proof -
  obtain r2 fs2 where 2: "Remove (dst @ ''.bak'') fs1 = (r2, fs2)" by fastforce
  obtain r3 fs3 where 3: "Rename dst (dst @ ''.bak'') fs2 = (r3, fs3)" by fastforce
  obtain r4 fs4 where 4: "Rename src dst fs3 = (r4, fs4)" by fastforce
  have "at fs1 = at fs" using rename_result [OF assms(1)] assms(2) by auto
  then have at2: "at fs2 = at fs \<or> at fs2 = (at fs)(dst @ ''.bak'' := None)" using remove_result [OF 2] by simp
  show thesis
    by (rule that [OF at2 3 4], cases r3)
      (use assms 2 3 4 in \<open>auto simp: Replace_def Let_def os_error_def split: prod.splits if_splits os_result.splits\<close>)
qed

section \<open>Properties\<close>

text \<open>C18: replacing a file never loses data. When it reports success the destination holds the new content. When it
  reports an error the destination still holds the old content or already the new one, or, after
  three failures in a row, it is missing while the old content is in the backup and the new content in
  the source.\<close>

theorem replace_never_loses:
  assumes "at fs src = Some new" and "src \<noteq> dst" and "src \<noteq> dst @ ''.bak''" and "Replace src dst fs = (err, fs')"
  shows "if err = None then at fs' dst = Some new
     else at fs' dst = at fs dst \<or> at fs' dst = Some new
       \<or> (at fs' dst = None \<and> at fs' (dst @ ''.bak'') = at fs dst \<and> at fs' src = Some new)"
proof -
  have ne: "dst \<noteq> dst @ ''.bak''" by simp
  obtain r1 fs1 where 1: "Rename src dst fs = (r1, fs1)" by fastforce
  show ?thesis
  proof (cases "r1 = Done")
    case True
    with 1 assms(4) have "err = None" "fs' = fs1" by (simp_all add: Replace_def)
    with rename_result [OF 1] True assms(1) show ?thesis by auto
  next
    case False
    obtain fs2 r3 fs3 r4 fs4 where s: "at fs2 = at fs \<or> at fs2 = (at fs)(dst @ ''.bak'' := None)"
      and 3: "Rename dst (dst @ ''.bak'') fs2 = (r3, fs3)" and 4: "Rename src dst fs3 = (r4, fs4)"
      and res: "r3 = OSFail \<and> err \<noteq> None \<and> fs' = fs3
       \<or> r3 = NotExist \<and> err = os_error r4 \<and> fs' = fs4
       \<or> r3 = Done \<and> r4 \<noteq> Done \<and> err \<noteq> None \<and> fs' = snd (Rename (dst @ ''.bak'') dst fs4)
       \<or> r3 = Done \<and> r4 = Done \<and> err = os_error (fst (Remove (dst @ ''.bak'') fs4)) \<and> fs' = snd (Remove (dst @ ''.bak'') fs4)"
      by (rule replace_slow [OF 1 False assms(4)]) blast
    have at2: "at fs2 dst = at fs dst" "at fs2 src = Some new" using s assms(1,3) ne by (auto simp: fun_upd_def)
    from res show ?thesis
    proof (elim disjE conjE, goal_cases)
      case 1
      then show ?case using rename_result [OF 3] at2(1) by auto
    next
      case 2
      then show ?case using rename_result [OF 3] rename_result [OF 4] at2 by (auto simp: os_error_def)
    next
      case 3
      then have "at fs4 = ((at fs2)(dst := None))(dst @ ''.bak'' := at fs2 dst)"
        using rename_result [OF \<open>Rename dst (dst @ ''.bak'') fs2 = (r3, fs3)\<close>] rename_result [OF 4] by auto
      with 3 at2 assms(2,3) ne show ?case
        using rename_result [of "dst @ ''.bak''" dst fs4, OF prod.collapse [symmetric]] by auto
    next
      case c: 4
      then have "at fs4 dst = Some new"
        using rename_result [OF 3] rename_result [OF 4] at2 assms(2,3) by auto
      with c ne show ?case using remove_at [of "dst @ ''.bak''" fs4] by (auto simp: fun_upd_def)
    qed
  qed
qed

theorem replace_never_loses_witness:
  "\<exists>err fs'. Replace ''f.tmp'' ''f'' \<lparr>files = [(''f.tmp'', Bytes (2 :: nat)), (''f'', Bytes 1)], faults = [True, False, False, True]\<rparr> = (err, fs')
     \<and> (at fs' ''f'' = Some (Bytes 1) \<or> at fs' ''f'' = Some (Bytes 2)
        \<or> at fs' ''f'' = None \<and> at fs' ''f.bak'' = Some (Bytes 1) \<and> at fs' ''f.tmp'' = Some (Bytes 2))"
proof -
  let ?fs = "\<lparr>files = [(''f.tmp'', Bytes (2 :: nat)), (''f'', Bytes 1)], faults = [True, False, False, True]\<rparr>"
  obtain err fs' where r: "Replace ''f.tmp'' ''f'' ?fs = (err, fs')" by fastforce
  have "at ?fs ''f.tmp'' = Some (Bytes 2)" "at ?fs ''f'' = Some (Bytes 1)" by (simp_all add: at_def)
  with replace_never_loses [OF this(1) _ _ r] r show ?thesis by (auto split: if_splits)
qed

end
