(* ===== verification/File_Store.thy ===== *)
theory File_Store
  imports Filesystem Dispatch
begin

text \<open>
  \<^verbatim>\<open>FileStore\<close> of \<^verbatim>\<open>src/internal/store/file.go\<close>: the task map in memory, written to one JSON document after
  every change. The JSON encoder and decoder are arguments. The proofs compare the
  operations with those of \<^verbatim>\<open>MemoryStore\<close>: they make the same decisions, then save.
\<close>

section \<open>The store\<close>

type_synonym tasks = "(string, task) gmap"

type_synonym 'd task_codec = "(tasks, 'd) codec"

record 'd file_store =
  fpath :: string
  ftasks :: tasks
  disk :: "'d fsys"

definition NewFile :: "'d task_codec \<Rightarrow> string \<Rightarrow> 'd fsys \<Rightarrow> (error + 'd file_store) \<times> 'd fsys" where
  "NewFile cd path fs =
     (if path = [] then (Inl ErrInvalid, fs)
      else let (res, fs') = ReadFile path fs in
        case res of
          Inl e \<Rightarrow> (Inl e, fs')
        | Inr None \<Rightarrow> (Inr \<lparr>fpath = path, ftasks = [], disk = fs'\<rparr>, fs')
        | Inr (Some Empty) \<Rightarrow> (Inr \<lparr>fpath = path, ftasks = [], disk = fs'\<rparr>, fs')
        | Inr (Some Torn) \<Rightarrow> (Inl (ErrIO ''unexpected end of JSON input''), fs')
        | Inr (Some (Bytes d)) \<Rightarrow>
            (case unmarshal cd d of
               Inl e \<Rightarrow> (Inl e, fs')
             | Inr ts \<Rightarrow> (Inr \<lparr>fpath = path, ftasks = ts, disk = fs'\<rparr>, fs')))"

definition FileStore_saveLocked :: "'d task_codec \<Rightarrow> 'd file_store \<Rightarrow> error option \<times> 'd file_store" where
  "FileStore_saveLocked cd s =
     (case marshal cd (ftasks s) of
        Inl e \<Rightarrow> (Some e, s)
      | Inr b \<Rightarrow>
          (let tmp = fpath s @ ''.tmp''; (werr, fs1) = WriteFile tmp (Bytes b) (disk s) in
           case werr of
             Some e \<Rightarrow> (Some e, s\<lparr>disk := fs1\<rparr>)
           | None \<Rightarrow> (let (err, fs2) = Replace tmp (fpath s) fs1 in (err, s\<lparr>disk := fs2\<rparr>))))"

definition FileStore_Create :: "'d task_codec \<Rightarrow> task \<Rightarrow> 'd file_store \<Rightarrow> error option \<times> 'd file_store" where
  "FileStore_Create cd t s =
     (case Validate t of
        Some e \<Rightarrow> (Some e, s)
      | None \<Rightarrow>
          if IdempotencyKey t \<noteq> [] \<and> (\<exists>e \<in> set (ftasks s). IdempotencyKey (snd e) = IdempotencyKey t)
          then (Some ErrDuplicateIdempotencyKey, s)
          else if map_of (ftasks s) (ID t) \<noteq> None then (Some ErrExist, s)
          else FileStore_saveLocked cd (s\<lparr>ftasks := AList.update (ID t) (clone t) (ftasks s)\<rparr>))"

definition FileStore_GetByIdempotencyKey :: "string \<Rightarrow> 'd file_store \<Rightarrow> error + task" where
  "FileStore_GetByIdempotencyKey key s =
     (case List.find (\<lambda>t. IdempotencyKey t = key) (map snd (ftasks s)) of
        None \<Rightarrow> Inl ErrNotFound
      | Some t \<Rightarrow> Inr (clone t))"

definition FileStore_Get :: "string \<Rightarrow> 'd file_store \<Rightarrow> error + task" where
  "FileStore_Get i s = (case map_of (ftasks s) i of None \<Rightarrow> Inl ErrNotFound | Some t \<Rightarrow> Inr (clone t))"

definition FileStore_List :: "'d file_store \<Rightarrow> error + task list" where
  "FileStore_List s = Inr (map (clone \<circ> snd) (ftasks s))"

definition FileStore_CountInFlight :: "'d file_store \<Rightarrow> error + int" where
  "FileStore_CountInFlight s =
     Inr (foldl (\<lambda>count t. if IsInFlight (Status t) then count + 1 else count) 0 (map snd (ftasks s)))"

definition FileStore_Update :: "'d task_codec \<Rightarrow> task \<Rightarrow> 'd file_store \<Rightarrow> error option \<times> 'd file_store" where
  "FileStore_Update cd t s =
     (case Validate t of
        Some e \<Rightarrow> (Some e, s)
      | None \<Rightarrow>
          if map_of (ftasks s) (ID t) = None then (Some ErrNotFound, s)
          else FileStore_saveLocked cd (s\<lparr>ftasks := AList.update (ID t) (clone t) (ftasks s)\<rparr>))"

definition FileStore_UpdateIfLease ::
  "'d task_codec \<Rightarrow> string \<Rightarrow> string \<Rightarrow> task \<Rightarrow> 'd file_store \<Rightarrow> error option \<times> 'd file_store" where
  "FileStore_UpdateIfLease cd i token t s =
     (case Validate t of
        Some e \<Rightarrow> (Some e, s)
      | None \<Rightarrow>
          (case map_of (ftasks s) i of
             None \<Rightarrow> (Some ErrNotFound, s)
           | Some current \<Rightarrow>
               if Status current \<noteq> StatusRunning \<or> LeaseToken current \<noteq> token then (Some ErrConflict, s)
               else FileStore_saveLocked cd (s\<lparr>ftasks := AList.update i (clone t) (ftasks s)\<rparr>)))"

definition FileStore_UpdateIfState ::
  "'d task_codec \<Rightarrow> string \<Rightarrow> status \<Rightarrow> string \<Rightarrow> task \<Rightarrow> 'd file_store \<Rightarrow> error option \<times> 'd file_store" where
  "FileStore_UpdateIfState cd i st token t s =
     (case Validate t of
        Some e \<Rightarrow> (Some e, s)
      | None \<Rightarrow>
          (case map_of (ftasks s) i of
             None \<Rightarrow> (Some ErrNotFound, s)
           | Some current \<Rightarrow>
               if Status current \<noteq> st \<or> LeaseToken current \<noteq> token then (Some ErrConflict, s)
               else FileStore_saveLocked cd (s\<lparr>ftasks := AList.update i (clone t) (ftasks s)\<rparr>)))"

definition FileStore_Delete :: "'d task_codec \<Rightarrow> string \<Rightarrow> 'd file_store \<Rightarrow> error option \<times> 'd file_store" where
  "FileStore_Delete cd i s =
     (if map_of (ftasks s) i = None then (Some ErrNotFound, s)
      else FileStore_saveLocked cd (s\<lparr>ftasks := AList.delete i (ftasks s)\<rparr>))"

text \<open>A \<^verbatim>\<open>FileStore\<close> counts and finds by key, and offers conditional updates; it is no worker registry, no
  scanner and no atomic claimer.\<close>

definition file_updater :: "'d task_codec \<Rightarrow> 'd file_store conditional_updater" where
  "file_updater cd = \<lparr>UpdateIfLease = FileStore_UpdateIfLease cd, UpdateIfState = FileStore_UpdateIfState cd\<rparr>"

definition file_ops :: "'d task_codec \<Rightarrow> 'd file_store store_ops" where
  "file_ops cd = \<lparr>Create = FileStore_Create cd, Get = FileStore_Get, List = FileStore_List,
     Update = FileStore_Update cd, Delete = FileStore_Delete cd,
     asConditionalUpdater = Some (file_updater cd), asAtomicClaimer = None,
     asInFlightCounter = Some FileStore_CountInFlight, asTaskScanner = None, asWorkerRegistry = None,
     asIdempotencyFinder = Some FileStore_GetByIdempotencyKey, records = (\<lambda>s. length (ftasks s))\<rparr>"

section \<open>Simulation by the memory store\<close>

definition mem_of :: "'d file_store \<Rightarrow> memory_store" where
  "mem_of s = \<lparr>mtasks = ftasks s, mworkers = []\<rparr>"

definition file_look :: "'d file_store \<Rightarrow> string \<rightharpoonup> task" where
  "file_look s = mem_look (mem_of s)"

definition file_inv :: "'d file_store \<Rightarrow> bool" where
  "file_inv s \<longleftrightarrow> mem_inv (mem_of s)"

lemma save_tasks [simp]: "ftasks (snd (FileStore_saveLocked cd s)) = ftasks s" "fpath (snd (FileStore_saveLocked cd s)) = fpath s"
  by (simp_all add: FileStore_saveLocked_def Let_def split: sum.split prod.split option.split)

text \<open>An operation of the file store decides as the memory store does; when that one succeeds it puts its tasks in
  place and saves.\<close>

definition simulates :: "'d task_codec \<Rightarrow> 'd file_store \<Rightarrow> error option \<times> 'd file_store \<Rightarrow> error option \<times> memory_store \<Rightarrow> bool" where
  "simulates cd s f m \<longleftrightarrow>
     (case fst m of
        None \<Rightarrow> f = FileStore_saveLocked cd (s\<lparr>ftasks := mtasks (snd m)\<rparr>)
      | Some e \<Rightarrow> f = (Some (if e = ErrDuplicateID then ErrExist else e), s) \<and> snd m = mem_of s)"

lemma file_simulates:
  "simulates cd s (FileStore_Create cd t s) (MemoryStore_Create t (mem_of s))"
  "simulates cd s (FileStore_Update cd t s) (MemoryStore_Update t (mem_of s))"
  "simulates cd s (FileStore_Delete cd i s) (MemoryStore_Delete i (mem_of s))"
  "simulates cd s (FileStore_UpdateIfState cd i st token t s) (MemoryStore_UpdateIfState i st token t (mem_of s))"
  "simulates cd s (FileStore_UpdateIfLease cd i token t s) (MemoryStore_UpdateIfLease i token t (mem_of s))"
  by (auto simp: simulates_def mem_of_def FileStore_Create_def MemoryStore_Create_def FileStore_Update_def MemoryStore_Update_def
      FileStore_Delete_def MemoryStore_Delete_def FileStore_UpdateIfState_def MemoryStore_UpdateIfState_def
      FileStore_UpdateIfLease_def MemoryStore_UpdateIfLease_def dest: Validate_Some split: option.splits)

lemma file_reads:
  "FileStore_Get i s = MemoryStore_Get i (mem_of s)" "FileStore_List s = MemoryStore_List (mem_of s)"
  "FileStore_GetByIdempotencyKey key s = MemoryStore_GetByIdempotencyKey key (mem_of s)"
  "FileStore_CountInFlight s = MemoryStore_CountInFlight (mem_of s)"
  by (simp_all add: mem_of_def FileStore_Get_def MemoryStore_Get_def FileStore_List_def MemoryStore_List_def
      FileStore_GetByIdempotencyKey_def MemoryStore_GetByIdempotencyKey_def FileStore_CountInFlight_def MemoryStore_CountInFlight_def)

text \<open>What the simulation carries over.\<close>

lemma mem_of_workers: "mworkers m = [] \<Longrightarrow> mem_of (s\<lparr>ftasks := mtasks m\<rparr>) = m"
  by (cases m) (simp add: mem_of_def)

lemma simulates_mem:
  assumes "simulates cd s f m" and "mworkers (snd m) = mworkers (mem_of s)"
  shows "mem_of (snd f) = snd m"
proof -
  have "mem_of (snd (FileStore_saveLocked cd u)) = mem_of u" for u by (simp add: mem_of_def)
  then show ?thesis using assms by (auto simp: simulates_def mem_of_workers mem_of_def split: option.splits)
qed

lemma simulates_meets:
  assumes "simulates cd s f m" and "mworkers (snd m) = mworkers (mem_of s)" and "meets mem_look (mem_of s) m spec"
  shows "meets file_look s f spec"
  using assms simulates_mem [OF assms(1,2)]
  by (auto simp: meets_def file_look_def simulates_def split: option.splits)

lemmas file_mem = file_simulates [THEN simulates_mem]
lemmas file_meets = file_simulates [THEN simulates_meets]

lemma file_ops_sel [simp]:
  "Create (file_ops cd) = FileStore_Create cd" "Get (file_ops cd) = FileStore_Get" "List (file_ops cd) = FileStore_List"
  "Update (file_ops cd) = FileStore_Update cd" "Delete (file_ops cd) = FileStore_Delete cd"
  "asConditionalUpdater (file_ops cd) = Some (file_updater cd)" "asAtomicClaimer (file_ops cd) = None"
  "asTaskScanner (file_ops cd) = None" "asInFlightCounter (file_ops cd) = Some FileStore_CountInFlight"
  "asIdempotencyFinder (file_ops cd) = Some FileStore_GetByIdempotencyKey" "asWorkerRegistry (file_ops cd) = None"
  "records (file_ops cd) = (\<lambda>s. length (ftasks s))"
  "UpdateIfState (file_updater cd) = FileStore_UpdateIfState cd" "UpdateIfLease (file_updater cd) = FileStore_UpdateIfLease cd"
  by (simp_all add: file_ops_def file_updater_def)

lemma mem_keeps_workers_lease: "mworkers (snd (MemoryStore_UpdateIfLease i token t s)) = mworkers s"
  by (simp add: mem_lease_is_state mem_keeps_workers)

lemmas mem_frame = mem_keeps_workers mem_keeps_workers_lease

text \<open>The store keeps the contract whatever fails: a failed save reports an error after the change.\<close>

interpretation fstore: task_store "file_ops cd" "file_updater cd" file_look file_inv for cd :: "'d task_codec"
proof (unfold_locales, goal_cases)
  case (2 s) then show ?case by (simp add: file_inv_def file_look_def mem_inv_def)
next
  case (3 s) show ?case using card_gmap_le [of "ftasks s"] by (simp add: file_look_def mem_look_def mem_of_def)
next
  case (4 s i) then show ?case by (simp add: file_reads file_inv_def file_look_def mem_get)
next
  case (5 s) then show ?case using mem_list [of "mem_of s"] by (simp add: file_reads file_inv_def file_look_def)
next
  case (6 s t) then show ?case by (simp add: file_meets(1) mem_frame mem_create_meets file_inv_def file_look_def)
next
  case (7 s t) then show ?case by (simp add: file_meets(2) mem_frame mem_update_meets file_look_def)
next
  case (8 s i) then show ?case by (simp add: file_meets(3) mem_frame mem_delete_meets file_look_def)
next
  case (9 s t i st token) then show ?case by (simp add: file_meets(4) mem_frame mem_cas_meets file_look_def)
next
  case (10 s t i token) then show ?case by (simp add: file_meets(5) mem_frame mem_lease_is_state mem_cas_meets file_look_def)
qed (simp_all add: file_inv_def file_look_def file_mem mem_frame mem_inv_create mem_inv_delete mem_inv_update mem_inv_cas mem_lease_is_state)

section \<open>Saving\<close>

definition file_ok :: "'d task_codec \<Rightarrow> 'd file_store \<Rightarrow> bool" where
  "file_ok cd s \<longleftrightarrow> file_inv s \<and> healthy (disk s) \<and> (\<forall>ts. \<exists>b. marshal cd ts = Inr b)"

lemma save_healthy:
  assumes "healthy (disk s)" and "marshal cd (ftasks s) = Inr b"
  shows "\<exists>fs. FileStore_saveLocked cd s = (None, s\<lparr>disk := fs\<rparr>) \<and> healthy fs \<and> at fs (fpath s) = Some (Bytes b)"
proof -
  let ?tmp = "fpath s @ ''.tmp''"
  obtain fs1 where 1: "WriteFile ?tmp (Bytes b) (disk s) = (None, fs1)" "healthy fs1" "at fs1 = (at (disk s))(?tmp \<mapsto> Bytes b)"
    using write_healthy [OF assms(1)] by blast
  then have "at fs1 ?tmp = Some (Bytes b)" by simp
  from replace_healthy [OF 1(2) this, of "fpath s"] obtain fs2
    where "Replace ?tmp (fpath s) fs1 = (None, fs2)" "healthy fs2" "at fs2 (fpath s) = Some (Bytes b)" by auto
  with 1(1) assms(2) show ?thesis by (intro exI [of _ fs2]) (simp add: FileStore_saveLocked_def)
qed

lemma save_ok:
  assumes "file_ok cd s" and "disk u = disk s"
  shows "fst (FileStore_saveLocked cd u) = None" and "healthy (disk (snd (FileStore_saveLocked cd u)))"
proof -
  obtain b where "marshal cd (ftasks u) = Inr b" using assms(1) by (auto simp: file_ok_def)
  from save_healthy [OF _ this] assms show "fst (FileStore_saveLocked cd u) = None" "healthy (disk (snd (FileStore_saveLocked cd u)))"
    by (auto simp: file_ok_def)
qed

lemma simulates_succeeds: "simulates cd s f m \<Longrightarrow> file_ok cd s \<Longrightarrow> fst m = None \<Longrightarrow> fst f = None"
  by (simp add: simulates_def save_ok)

lemma simulates_ok:
  assumes "simulates cd s f m" and "file_ok cd s" and "mworkers (snd m) = mworkers (mem_of s)" and "mem_inv (snd m)"
  shows "file_ok cd (snd f)"
proof -
  have "file_inv (snd f)" using simulates_mem [OF assms(1,3)] assms(4) by (simp add: file_inv_def)
  moreover have "healthy (disk s)" using assms(2) by (simp add: file_ok_def)
  then have "healthy (disk (snd f))"
    using assms(1) save_ok(2) [OF assms(2), of "s\<lparr>ftasks := mtasks (snd m)\<rparr>"] by (auto simp: simulates_def split: option.splits)
  ultimately show ?thesis using assms(2) by (simp add: file_ok_def)
qed

lemmas file_keeps_ok = file_simulates [THEN simulates_ok]
lemmas file_succeeds = file_simulates [THEN simulates_succeeds]

text \<open>On a disk without faults, and with an encoder that accepts the tasks, the store is reliable.\<close>

lemma file_ok_mem: "file_ok cd s \<Longrightarrow> mem_inv (mem_of s)"
  by (simp add: file_ok_def file_inv_def)

interpretation flocal: local_store "file_ops cd" "file_updater cd" file_look "file_ok cd" for cd :: "'d task_codec"
proof (unfold_locales, goal_cases)
  case (2 s) then show ?case by (simp add: fstore.wf file_ok_def)
next
  case (3 s) show ?case using card_gmap_le [of "ftasks s"] by (simp add: file_look_def mem_look_def mem_of_def)
next
  case (4 s i) then show ?case by (intro fstore.get) (simp_all add: file_ok_def)
next
  case (5 s) then show ?case by (intro fstore.list) (simp_all add: file_ok_def)
next
  case (6 s t) then show ?case by (intro fstore.create) (simp_all add: file_ok_def)
next
  case (7 s t) then show ?case by (intro fstore.update) (simp_all add: file_ok_def)
next
  case (8 s i) then show ?case by (intro fstore.delete) (simp_all add: file_ok_def)
next
  case (9 s t i st token) then show ?case by (intro fstore.cas) (simp_all add: file_ok_def)
next
  case (10 s t i token) then show ?case by (intro fstore.cas_lease) (simp_all add: file_ok_def)
next
  case (11 s t) then show ?case using file_keeps_ok(1) [where cd = cd and s = s and t = t] by (simp add: mem_frame mem_inv_create file_ok_mem)
next
  case (12 s i) then show ?case using file_keeps_ok(3) [where cd = cd and s = s and i = i] by (simp add: mem_frame mem_inv_delete file_ok_mem)
next
  case (13 s t c) then show ?case
    using file_keeps_ok(2) [where cd = cd and s = s and t = t] by (simp add: mem_frame mem_inv_update file_ok_mem file_look_def)
next
  case (14 s t) then show ?case
    using file_keeps_ok(2) [where cd = cd and s = s and t = t] by (simp add: mem_frame mem_inv_update file_ok_mem file_look_def)
next
  case (15 s t i st token) then show ?case
    using file_keeps_ok(4) [where cd = cd and s = s and i = i and st = st and token = token and t = t] by (simp add: mem_frame mem_inv_cas file_ok_mem file_look_def)
next
  case (16 s t i token) then show ?case
    using file_keeps_ok(5) [where cd = cd and s = s and i = i and token = token and t = t] by (simp add: mem_frame mem_lease_is_state mem_inv_cas file_ok_mem file_look_def)
next
  case (17 s t) then show ?case
    using file_succeeds(1) [where cd = cd and s = s and t = t] by (simp add: mem_frame mem_inv_create mem_create_ok file_ok_mem file_look_def)
next
  case (18 s t) then show ?case
    using file_succeeds(2) [where cd = cd and s = s and t = t] by (simp add: mem_update_ok file_look_def)
next
  case (19 s i) then show ?case
    using file_succeeds(3) [where cd = cd and s = s and i = i] by (simp add: mem_delete_ok file_look_def)
next
  case (20 s t i st token) then show ?case
    using file_succeeds(4) [where cd = cd and s = s and i = i and st = st and token = token and t = t] by (simp add: mem_cas_ok file_look_def)
next
  case (21 s t i token) then show ?case
    using file_succeeds(5) [where cd = cd and s = s and i = i and token = token and t = t]
    by (simp add: mem_lease_is_state mem_cas_ok file_look_def)
next
  case 22
  have "case FileStore_GetByIdempotencyKey key s of
           Inr t \<Rightarrow> (\<exists>i. file_look s i = Some t) \<and> IdempotencyKey t = key
         | Inl e \<Rightarrow> e = ErrNotFound \<and> key_free (file_look s) key" if "file_ok cd s" "key \<noteq> []" for s :: "'d file_store" and key
    using mem_finder [OF file_ok_mem [OF that(1)] that(2)] unfolding file_reads file_look_def .
  then show ?case by auto
next
  case 23 then show ?case using mem_counter [OF file_ok_mem] by (auto simp: file_reads file_look_def)
qed simp_all

section \<open>Properties\<close>

text \<open>C19: a file store keeps the contract of a task store whatever the disk does: each mutating call either
  makes exactly the change of its specification, or reports an error and changes nothing; a failed save
  reports an error although the change is in effect in memory.\<close>

theorem file_store_refines:
  assumes "file_inv s"
  shows "meets file_look s (FileStore_Create cd t s) (create_spec t (file_look s))
     \<and> meets file_look s (FileStore_Update cd t s) (update_spec t (file_look s))
     \<and> meets file_look s (FileStore_Delete cd i s) (delete_spec i (file_look s))
     \<and> (ID t = i \<longrightarrow> meets file_look s (FileStore_UpdateIfState cd i st token t s) (cas_spec i st token t (file_look s)))
     \<and> (ID t = i \<longrightarrow> meets file_look s (FileStore_UpdateIfLease cd i token t s) (cas_spec i StatusRunning token t (file_look s)))
     \<and> FileStore_Get i s = (case file_look s i of None \<Rightarrow> Inl ErrNotFound | Some u \<Rightarrow> Inr u)
     \<and> file_inv (snd (FileStore_Create cd t s)) \<and> file_inv (snd (FileStore_Delete cd i s))"
  using fstore.create [OF assms, where cd = cd and t = t] fstore.update [OF assms, where cd = cd and t = t]
    fstore.delete [OF assms, where cd = cd and i = i] fstore.cas [OF assms, where cd = cd and t = t and i = i and st = st and token = token]
    fstore.cas_lease [OF assms, where cd = cd and t = t and i = i and token = token] fstore.get [OF assms, where i = i]
    fstore.inv_create [OF assms, where cd = cd and t = t] fstore.inv_delete [OF assms, where cd = cd and i = i]
  by simp

text \<open>An empty store on an empty disk, with an encoder that keeps the value.\<close>

definition plain_codec :: "tasks task_codec" where
  "plain_codec = \<lparr>marshal = Inr, unmarshal = (\<lambda>ts. Inr (AList.clearjunk ts))\<rparr>"

definition empty_file_store :: "bool list \<Rightarrow> tasks file_store" where
  "empty_file_store bs = \<lparr>fpath = ''db'', ftasks = [], disk = \<lparr>files = [], faults = bs\<rparr>\<rparr>"

lemma empty_file_inv: "file_inv (empty_file_store bs)"
  by (simp add: file_inv_def mem_of_def empty_file_store_def mem_inv_def mem_look_def wf_view_def)

lemma plain_faithful: "faithful plain_codec"
  by (simp add: faithful_def plain_codec_def map_of_clearjunk distinct_clearjunk)

lemma empty_file_ok: "file_ok plain_codec (empty_file_store [])"
  using empty_file_inv by (simp add: file_ok_def healthy_def empty_file_store_def plain_codec_def)

theorem file_store_refines_witness:
  "meets file_look (empty_file_store [True]) (FileStore_Create plain_codec zero_task (empty_file_store [True]))
     (create_spec zero_task (file_look (empty_file_store [True])))"
  using file_store_refines [OF empty_file_inv] by blast

lemma save_reopen:
  assumes "faithful cd" and "healthy (disk s)" and "fpath s \<noteq> []" and "FileStore_saveLocked cd s = (None, s')"
  shows "\<exists>s2 fs. NewFile cd (fpath s) (disk s') = (Inr s2, fs) \<and> file_look s2 = file_look s'"
proof -
  obtain b where b: "marshal cd (ftasks s) = Inr b"
    using assms(4) by (auto simp: FileStore_saveLocked_def split: sum.splits)
  from save_healthy [OF assms(2) b] assms(4) have d: "healthy (disk s')" "at (disk s') (fpath s) = Some (Bytes b)" "ftasks s' = ftasks s" by auto
  obtain ts where ts: "unmarshal cd b = Inr ts" "map_of ts = map_of (ftasks s)" using assms(1) b by (auto simp: faithful_def)
  obtain bad fs where f: "fault (disk s') = (bad, fs)" by fastforce
  with fault_healthy [OF d(1)] fault_files [of "disk s'"] d(2)
  have "ReadFile (fpath s) (disk s') = (Inr (Some (Bytes b)), fs)" by (simp add: ReadFile_def at_def)
  with ts assms(3) d(3) show ?thesis by (simp add: NewFile_def file_look_def mem_look_def mem_of_def)
qed

text \<open>What a successful call wrote survives a restart: opening the file again yields a store with
  the same tasks.\<close>

theorem file_reopen:
  assumes "faithful cd" and "file_ok cd s" and "fpath s \<noteq> []"
    and "r \<in> {FileStore_Create cd t s, FileStore_Update cd t s, FileStore_Delete cd i s,
              FileStore_UpdateIfState cd i st token t s, FileStore_UpdateIfLease cd i token t s}"
    and "fst r = None"
  shows "\<exists>s2 fs. NewFile cd (fpath s) (disk (snd r)) = (Inr s2, fs) \<and> file_look s2 = file_look (snd r)"
proof -
  have saved: "\<exists>ts. f = FileStore_saveLocked cd (s\<lparr>ftasks := ts\<rparr>)" if "simulates cd s f m" "fst f = None" for f m
    using that by (auto simp: simulates_def split: option.splits)
  obtain ts where "r = FileStore_saveLocked cd (s\<lparr>ftasks := ts\<rparr>)"
    using assms(4,5) file_simulates [where cd = cd and s = s, THEN saved] by blast
  with save_reopen [OF assms(1), of "s\<lparr>ftasks := ts\<rparr>" "snd r"] assms(2,3,5) show ?thesis
    by (simp add: file_ok_def prod_eq_iff)
qed

theorem file_reopen_witness:
  "\<exists>t s' s2 fs. FileStore_Create plain_codec t (empty_file_store []) = (None, s')
     \<and> NewFile plain_codec ''db'' (disk s') = (Inr s2, fs) \<and> file_look s2 = file_look s'"
proof -
  let ?r = "FileStore_Create plain_codec (job ''a'' [] StatusPending) (empty_file_store [])"
  have f: "fst ?r = None" by code_simp
  have "\<exists>s2 fs. NewFile plain_codec (fpath (empty_file_store [])) (disk (snd ?r)) = (Inr s2, fs) \<and> file_look s2 = file_look (snd ?r)"
    by (rule file_reopen [where t = "job ''a'' [] StatusPending", OF plain_faithful empty_file_ok _ _ f]) (simp_all add: empty_file_store_def)
  moreover have "fpath (empty_file_store []) = ''db''" by (simp add: empty_file_store_def)
  ultimately show ?thesis using f by (metis prod.collapse)
qed

text \<open>A save that fails reports an error, but the change is made: a task whose creation was refused this
  way is in the store, while the file on disk does not have it.\<close>

theorem failed_save_is_visible:
  assumes "file_inv s" and "create_spec t (file_look s) \<noteq> None" and "marshal cd (AList.update (ID t) (clone t) (ftasks s)) = Inr b"
    and "faults (disk s) = True # bs"
  shows "\<exists>e s'. FileStore_Create cd t s = (Some e, s') \<and> FileStore_Get (ID t) s' = Inr (clone t)
     \<and> at (disk s') (fpath s) = at (disk s) (fpath s)"
proof -
  let ?u = "s\<lparr>ftasks := AList.update (ID t) (clone t) (ftasks s)\<rparr>"
  have m: "fst (MemoryStore_Create t (mem_of s)) = None"
    using mem.create_ok [of "mem_of s" t] assms(1,2) by (simp add: file_inv_def file_look_def)
  then have "mtasks (snd (MemoryStore_Create t (mem_of s))) = ftasks ?u"
    by (auto simp: MemoryStore_Create_def mem_of_def split: option.splits if_splits)
  with file_simulates(1) [of cd s t] m have c: "FileStore_Create cd t s = FileStore_saveLocked cd ?u"
    by (simp add: simulates_def)
  have "fpath s \<noteq> fpath s @ ''.tmp''" by simp
  then have "\<exists>e s'. FileStore_saveLocked cd ?u = (Some e, s') \<and> at (disk s') (fpath s) = at (disk s) (fpath s)"
    using assms(3,4) by (auto simp: FileStore_saveLocked_def WriteFile_def fault_def at_def gmap_simps)
  then obtain e s' where s': "FileStore_saveLocked cd ?u = (Some e, s')" "at (disk s') (fpath s) = at (disk s) (fpath s)" by blast
  have "ftasks s' = ftasks ?u" using s'(1) by (metis save_tasks(1) snd_conv)
  with c s' show ?thesis by (simp add: FileStore_Get_def gmap_simps)
qed

theorem failed_save_is_visible_witness:
  "\<exists>e s'. FileStore_Create plain_codec (job ''a'' [] StatusPending) (empty_file_store [True]) = (Some e, s')
     \<and> FileStore_Get ''a'' s' = Inr (clone (job ''a'' [] StatusPending)) \<and> at (disk s') ''db'' = None"
proof -
  let ?s = "empty_file_store [True]" and ?t = "job ''a'' [] StatusPending"
  have "create_spec ?t (file_look ?s) \<noteq> None"
    by (simp add: create_spec_def file_look_def mem_look_def mem_of_def empty_file_store_def key_free_def Validate_None_iff job_def zero_task_def)
  moreover have "faults (disk ?s) = [True]" "fpath ?s = ''db''" "at (disk ?s) ''db'' = None"
    by (simp_all add: empty_file_store_def at_def)
  ultimately show ?thesis
    using failed_save_is_visible [OF empty_file_inv, of ?t "[True]" plain_codec _ "[]"] by (simp add: plain_codec_def)
qed

text \<open>On a file store too, a healthy worker that asks a leader gets the best runnable task under a fresh
  lease when there is one, and is told that there is none otherwise.\<close>

theorem file_claim:
  assumes "file_ok cd (store s)" and "mono clk" and "leaderGate s \<noteq> Some False"
    and "Scheduler_workerHealthy (file_ops cd) wid (clk 0) s" and "Scheduler_Claim (file_ops cd) wid clk s = (res, s')"
  shows "claim_post (file_look (store s)) (running s) (clk 1) wid (leaseTTL s) res (file_look (store s')) (running s')
     \<and> file_ok cd (store s')"
proof -
  have "\<And>k. clk 1 \<le> clk (k + 2)" using assms(2) by (simp add: mono_def)
  with flocal.claim_correct [OF assms(1,3,4) _ assms(5)] show ?thesis by blast
qed

theorem file_claim_witness:
  "\<exists>s res s'. Scheduler_Claim (file_ops plain_codec) ''w'' (\<lambda>_. 7) s = (res, s')
     \<and> claim_post (file_look (store s)) (running s) 7 ''w'' (leaseTTL s) res (file_look (store s')) (running s')"
proof -
  let ?m = "snd (FileStore_Create plain_codec (job ''a'' [] StatusPending) (empty_file_store []))"
  let ?s = "(Scheduler_New ?m 1 \<lparr>processTag = [], idCounter = 0\<rparr>)\<lparr>workersByID := [(''w'', live_worker ''w'' 1 100)]\<rparr>"
  have ok: "file_ok plain_codec (store ?s)"
    using flocal.inv_create [OF empty_file_ok, of "job ''a'' [] StatusPending"] by (simp add: Scheduler_New_def Let_def)
  have "leaderGate ?s \<noteq> Some False" by (simp add: Scheduler_New_def Let_def)
  moreover have "Scheduler_workerHealthy (file_ops plain_codec) ''w'' 7 ?s"
    by (simp add: Scheduler_workerHealthy_def live_worker_def)
  moreover obtain res s' where c: "Scheduler_Claim (file_ops plain_codec) ''w'' (\<lambda>_. 7) ?s = (res, s')" by fastforce
  ultimately show ?thesis using file_claim [OF ok _ _ _ c] c by (fastforce simp: mono_def)
qed

end
