(* ===== verification/File_Registry.thy ===== *)
theory File_Registry
  imports Filesystem Election
begin

text \<open>
  \<^verbatim>\<open>FileRegistry\<close> of \<^verbatim>\<open>src/internal/cluster/file_registry.go\<close>: the node map of the registry in a shared JSON
  file, each operation under a lock file. What an attempt to take the lock finds is decided by the other
  processes, so it is an argument: \<open>obs k\<close> is what the \<open>k\<close>-th attempt finds. The steps on the map are
  those of the memory registry.
\<close>

section \<open>The operations\<close>


record 'd file_registry =
  rpath :: string
  rdisk :: "'d fsys"

definition NewFileRegistry :: "string \<Rightarrow> 'd fsys \<Rightarrow> error + 'd file_registry" where
  "NewFileRegistry path fs =
     (if path = [] then Inl (ErrNew ''registry path is required'') else Inr \<lparr>rpath = path, rdisk = fs\<rparr>)"

text \<open>An attempt creates the lock file, or finds it with some age; an old one is removed and the next attempt
  follows at once, otherwise it follows after a pause. \<open>None\<close> for the age: the file could not be examined.\<close>

datatype lock_obs = Acquired | Held "duration option"

fun lock_loop :: "nat \<Rightarrow> (nat \<Rightarrow> lock_obs) \<Rightarrow> nat \<Rightarrow> duration \<Rightarrow> (nat \<times> duration) option" where
  "lock_loop 0 obs i waited = None"
| "lock_loop (Suc n) obs i waited =
     (case obs i of
        Acquired \<Rightarrow> Some (i, waited)
      | Held (Some age) \<Rightarrow>
          if age > 30000000000 then lock_loop n obs (Suc i) waited else lock_loop n obs (Suc i) (waited + 5000000)
      | Held None \<Rightarrow> lock_loop n obs (Suc i) (waited + 5000000))"







section \<open>The contract\<close>











section \<open>Properties\<close>






text \<open>Taking the lock ends: the loop makes at most as many attempts as it has left, sleeps at most once per
  failed attempt, and fails exactly when every attempt finds the file.\<close>

lemma lock_loop_Some:
  "lock_loop n obs i waited = Some (k, w) \<Longrightarrow> i \<le> k \<and> k < i + n \<and> obs k = Acquired \<and> w \<le> waited + 5000000 * int (k - i)"
proof (induction n arbitrary: i waited)
  case (Suc n)
  show ?case
  proof (cases "obs i")
    case Acquired
    with Suc.prems show ?thesis by simp
  next
    case (Held a)
    with Suc.prems obtain w' where w': "lock_loop n obs (Suc i) w' = Some (k, w)" "w' \<le> waited + 5000000"
      by (auto split: option.splits if_splits)
    from Suc.IH [OF w'(1)] w'(2) show ?thesis by auto
  qed
qed simp

lemma all_less_Suc_shift: "(\<forall>j < Suc n. P j) \<longleftrightarrow> P 0 \<and> (\<forall>j < n. P (Suc j))"
  using less_Suc_eq_0_disj by auto

lemma lock_loop_None: "lock_loop n obs i waited = None \<longleftrightarrow> (\<forall>j < n. obs (i + j) \<noteq> Acquired)"
proof (induction n arbitrary: i waited)
  case (Suc n)
  then show ?case by (auto simp: all_less_Suc_shift split: lock_obs.split option.split)
qed simp

end
