(* ===== verification/Lock_Protocol.thy ===== *)
theory Lock_Protocol
  imports JobRaft_Prelude
begin

text \<open>
  The lock file of \<^verbatim>\<open>FileRegistry.lock\<close> (\<^verbatim>\<open>src/internal/cluster/file_registry.go\<close>) as a protocol between processes
  that interleave between the system calls of the loop: the exclusive creation, the examination of the
  file's age, the removal of an old file, and the removal by the function that \<^verbatim>\<open>lock\<close> returns.

  \<open>Trying\<close> is the top of the loop body, \<open>Blocked\<close> the point after a failed creation, \<open>Stale\<close> the point between
  the examination that found the file old and its removal, \<open>Holding\<close> the time between the return of
  \<^verbatim>\<open>lock\<close> and the call of the unlock function.
\<close>

datatype pc = Outside | Trying nat | Blocked nat | Stale nat | Holding

record lock_state =
  mtime :: "gtime option"
  clock :: gtime
  pcs :: "nat \<Rightarrow> pc"

definition stale_age :: duration where "stale_age = 30000000000"

definition moves :: "nat \<Rightarrow> pc \<Rightarrow> lock_state \<Rightarrow> lock_state" where
  "moves p c s = s\<lparr>pcs := (pcs s)(p := c)\<rparr>"

inductive lstep :: "lock_state \<Rightarrow> lock_state \<Rightarrow> bool" where
  enter: "pcs s p = Outside \<Longrightarrow> lstep s (moves p (Trying 0) s)"
| acquire: "pcs s p = Trying i \<Longrightarrow> i < 50 \<Longrightarrow> mtime s = None \<Longrightarrow> lstep s (moves p Holding (s\<lparr>mtime := Some (clock s)\<rparr>))"
| found: "pcs s p = Trying i \<Longrightarrow> i < 50 \<Longrightarrow> mtime s = Some m \<Longrightarrow> lstep s (moves p (Blocked i) s)"
| give_up: "pcs s p = Trying i \<Longrightarrow> 50 \<le> i \<Longrightarrow> lstep s (moves p Outside s)"
| gone: "pcs s p = Blocked i \<Longrightarrow> mtime s = None \<Longrightarrow> lstep s (moves p (Trying (Suc i)) s)"
| young: "pcs s p = Blocked i \<Longrightarrow> mtime s = Some m \<Longrightarrow> clock s - m \<le> stale_age \<Longrightarrow> lstep s (moves p (Trying (Suc i)) s)"
| old: "pcs s p = Blocked i \<Longrightarrow> mtime s = Some m \<Longrightarrow> stale_age < clock s - m \<Longrightarrow> lstep s (moves p (Stale i) s)"
| break_lock: "pcs s p = Stale i \<Longrightarrow> lstep s (moves p (Trying (Suc i)) (s\<lparr>mtime := None\<rparr>))"
| unlock: "pcs s p = Holding \<Longrightarrow> lstep s (moves p Outside (s\<lparr>mtime := None\<rparr>))"
| tick: "0 \<le> d \<Longrightarrow> lstep s (s\<lparr>clock := clock s + d\<rparr>)"

inductive_cases lstep_cases: "lstep s s'"

definition lock_init :: lock_state where
  "lock_init = \<lparr>mtime = None, clock = 0, pcs = (\<lambda>_. Outside)\<rparr>"




lemma moves_sel [simp]: "pcs (moves p c s) = (pcs s)(p := c)" "mtime (moves p c s) = mtime s" "clock (moves p c s) = clock s"
  by (simp_all add: moves_def)






text \<open>C22: removing an old lock file is not atomic with finding it old. Two processes can both find the file of
  a crashed holder old; one removes it and takes the lock, and then the other removes the lock just taken and
  takes it as well, so that two live processes hold the lock at the same time.\<close>

theorem stale_lock_race:
  "\<exists>s. lstep\<^sup>*\<^sup>* lock_init s \<and> pcs s 1 = Holding \<and> pcs s 2 = Holding \<and> (\<exists>m. mtime s = Some m \<and> clock s - m \<le> stale_age)"
proof -
  let ?s1 = "moves 0 (Trying 0) lock_init"
  let ?s2 = "moves 0 Holding (?s1\<lparr>mtime := Some (clock ?s1)\<rparr>)"
  let ?s3 = "moves 1 (Trying 0) ?s2"
  let ?s4 = "moves 2 (Trying 0) ?s3"
  let ?s5 = "moves 1 (Blocked 0) ?s4"
  let ?s6 = "moves 2 (Blocked 0) ?s5"
  let ?s7 = "?s6\<lparr>clock := clock ?s6 + 30000000001\<rparr>"
  let ?s8 = "moves 1 (Stale 0) ?s7"
  let ?s9 = "moves 2 (Stale 0) ?s8"
  let ?s10 = "moves 1 (Trying (Suc 0)) (?s9\<lparr>mtime := None\<rparr>)"
  let ?s11 = "moves 1 Holding (?s10\<lparr>mtime := Some (clock ?s10)\<rparr>)"
  let ?s12 = "moves 2 (Trying (Suc 0)) (?s11\<lparr>mtime := None\<rparr>)"
  let ?s13 = "moves 2 Holding (?s12\<lparr>mtime := Some (clock ?s12)\<rparr>)"
  note sel = lock_init_def stale_age_def and go = rtranclp.rtrancl_into_rtrancl
  have "lstep\<^sup>*\<^sup>* lock_init lock_init" by simp
  then have "lstep\<^sup>*\<^sup>* lock_init ?s1" by (rule go) (rule lstep.enter, (simp add: sel)+)
  then have "lstep\<^sup>*\<^sup>* lock_init ?s2" by (rule go) (rule lstep.acquire, (simp add: sel)+)
  then have "lstep\<^sup>*\<^sup>* lock_init ?s3" by (rule go) (rule lstep.enter, (simp add: sel)+)
  then have "lstep\<^sup>*\<^sup>* lock_init ?s4" by (rule go) (rule lstep.enter, (simp add: sel)+)
  then have "lstep\<^sup>*\<^sup>* lock_init ?s5" by (rule go) (rule lstep.found, (simp add: sel)+)
  then have "lstep\<^sup>*\<^sup>* lock_init ?s6" by (rule go) (rule lstep.found, (simp add: sel)+)
  then have "lstep\<^sup>*\<^sup>* lock_init ?s7" by (rule go) (rule lstep.tick, (simp add: sel)+)
  then have "lstep\<^sup>*\<^sup>* lock_init ?s8" by (rule go) (rule lstep.old, (simp add: sel)+)
  then have "lstep\<^sup>*\<^sup>* lock_init ?s9" by (rule go) (rule lstep.old, (simp add: sel)+)
  then have "lstep\<^sup>*\<^sup>* lock_init ?s10" by (rule go) (rule lstep.break_lock, (simp add: sel)+)
  then have "lstep\<^sup>*\<^sup>* lock_init ?s11" by (rule go) (rule lstep.acquire, (simp add: sel)+)
  then have "lstep\<^sup>*\<^sup>* lock_init ?s12" by (rule go) (rule lstep.break_lock, (simp add: sel)+)
  then have "lstep\<^sup>*\<^sup>* lock_init ?s13" by (rule go) (rule lstep.acquire, (simp add: sel)+)
  then show ?thesis by (intro exI [of _ ?s13]) (simp add: sel)
qed

end
