(* ===== verification/Postgres_Model.thy ===== *)
theory Postgres_Model
  imports Scheduler_Model "HOL-Library.Product_Lexorder"
begin

text \<open>
  \<^verbatim>\<open>PostgresStore\<close> of \<^verbatim>\<open>src/internal/store/postgres.go\<close>: the two tables, every statement the code sends as a function on
  them, and the operations of the store around these statements.

  The database itself is not part of the sources. What it does to values is the argument \<open>db\<close>: which rows
  it accepts (an integer column has 32 bits, a payload must be JSON), the normal form of a JSON document, the
  resolution of a timestamp, the sort key of a text under the collation, its clock, and which of two violated constraints
  it reports. What goes wrong or happens around a call is part of the state: the error of the \<open>k\<close>-th
  statement of a call, the rows other open transactions have locked, and the random bytes still to be drawn. A
  statement that reports an error has had no effect, and a transaction that is not committed has none.
\<close>

section \<open>Tables\<close>

record row =
  c_id :: string
  c_idempotency_key :: "string option"
  c_name :: string
  c_priority :: int
  c_depends_on :: "string list"
  c_payload :: "string option"
  c_result :: "string option"
  c_status :: string
  c_attempts :: int
  c_max_attempts :: int
  c_retry_backoff_ns :: int
  c_run_at :: gtime
  c_schedule_ns :: int
  c_run_count :: int
  c_timeout_ns :: int
  c_last_error :: string
  c_created_at :: gtime
  c_started_at :: "gtime option"
  c_finished_at :: "gtime option"
  c_worker_id :: string
  c_lease_until :: "gtime option"
  c_lease_token :: string

record database =
  accepts :: "row \<Rightarrow> bool"
  jsonb :: "string \<Rightarrow> string"
  usec :: "gtime \<Rightarrow> gtime"
  collate :: "string \<Rightarrow> string"
  NOW :: "gtime \<Rightarrow> gtime"
  key_first :: bool

record pg =
  rows :: "row list"
  wrows :: "worker list"
  stmt_error :: "nat \<Rightarrow> error option"
  locked :: "string \<Rightarrow> bool"
  rnd :: "8 word list option list"

datatype db_error = UniqueViolation string | OtherError error

section \<open>Rows and tasks\<close>

definition nullableJSON :: "char slice \<Rightarrow> string option" where
  "nullableJSON value = (if elems value = [] then None else Some (elems value))"

definition taskArgs :: "task \<Rightarrow> row" where
  "taskArgs t = \<lparr>c_id = ID t, c_idempotency_key = (if IdempotencyKey t = [] then None else Some (IdempotencyKey t)),
     c_name = Name t, c_priority = Priority t, c_depends_on = elems (DependsOn t), c_payload = nullableJSON (Payload t),
     c_result = nullableJSON (Result t), c_status = Status t, c_attempts = Attempts t, c_max_attempts = MaxAttempts (Retry t),
     c_retry_backoff_ns = Backoff (Retry t), c_run_at = RunAt t, c_schedule_ns = Schedule t, c_run_count = RunCount t,
     c_timeout_ns = Timeout t, c_last_error = LastError t, c_created_at = CreatedAt t, c_started_at = StartedAt t,
     c_finished_at = FinishedAt t, c_worker_id = WorkerID t, c_lease_until = LeaseUntil t, c_lease_token = LeaseToken t\<rparr>"

text \<open>What a row looks like once it is stored.\<close>

definition stored_row :: "database \<Rightarrow> row \<Rightarrow> row" where
  "stored_row db r = r\<lparr>c_payload := map_option (jsonb db) (c_payload r), c_result := map_option (jsonb db) (c_result r),
     c_run_at := usec db (c_run_at r), c_created_at := usec db (c_created_at r),
     c_started_at := map_option (usec db) (c_started_at r), c_finished_at := map_option (usec db) (c_finished_at r),
     c_lease_until := map_option (usec db) (c_lease_until r)\<rparr>"

definition scanTask :: "row \<Rightarrow> task" where
  "scanTask r = \<lparr>ID = c_id r, IdempotencyKey = (case c_idempotency_key r of None \<Rightarrow> [] | Some k \<Rightarrow> k), Name = c_name r,
     Priority = c_priority r, DependsOn = Some (c_depends_on r), Payload = c_payload r, Result = c_result r,
     Status = c_status r, Attempts = c_attempts r, Retry = \<lparr>MaxAttempts = c_max_attempts r, Backoff = c_retry_backoff_ns r\<rparr>,
     RunAt = c_run_at r, Schedule = c_schedule_ns r, RunCount = c_run_count r, Timeout = c_timeout_ns r,
     LastError = c_last_error r, CreatedAt = c_created_at r, StartedAt = c_started_at r, FinishedAt = c_finished_at r,
     WorkerID = c_worker_id r, LeaseUntil = c_lease_until r, LeaseToken = c_lease_token r\<rparr>"

definition mapPostgresError :: "db_error \<Rightarrow> error" where
  "mapPostgresError e =
     (case e of
        UniqueViolation c \<Rightarrow>
          if c = ''jobraft_tasks_idempotency_key_key'' then ErrDuplicateIdempotencyKey
          else if c = ''jobraft_tasks_pkey'' then ErrDuplicateID else ErrConflict
      | OtherError e \<Rightarrow> e)"

definition requireAffected :: "nat \<Rightarrow> error option" where
  "requireAffected n = (if n = 0 then Some ErrConflict else None)"

section \<open>Statements\<close>

definition bad_value :: db_error where
  "bad_value = OtherError (ErrIO ''invalid input value'')"

definition key_taken :: "row \<Rightarrow> pg \<Rightarrow> bool" where
  "key_taken r s \<longleftrightarrow> c_idempotency_key r \<noteq> None
     \<and> (\<exists>x \<in> set (rows s). c_id x \<noteq> c_id r \<and> c_idempotency_key x = c_idempotency_key r)"

definition insert_task :: "database \<Rightarrow> row \<Rightarrow> pg \<Rightarrow> (db_error option) \<times> pg" where
  "insert_task db r s =
     (case stmt_error s 0 of
        Some e \<Rightarrow> (Some (OtherError e), s)
      | None \<Rightarrow>
          if \<not> accepts db r then (Some bad_value, s)
          else let dup_id = (\<exists>x \<in> set (rows s). c_id x = c_id r);
                   dup_key = (c_idempotency_key r \<noteq> None \<and> (\<exists>x \<in> set (rows s). c_idempotency_key x = c_idempotency_key r)) in
            if dup_key \<and> (key_first db \<or> \<not> dup_id) then (Some (UniqueViolation ''jobraft_tasks_idempotency_key_key''), s)
            else if dup_id then (Some (UniqueViolation ''jobraft_tasks_pkey''), s)
            else (None, s\<lparr>rows := rows s @ [stored_row db r]\<rparr>))"

text \<open>The number of rows the update has changed, or its error.\<close>

definition update_task :: "database \<Rightarrow> row \<Rightarrow> (row \<Rightarrow> bool) \<Rightarrow> pg \<Rightarrow> (db_error + nat) \<times> pg" where
  "update_task db r cond s =
     (case stmt_error s 0 of
        Some e \<Rightarrow> (Inl (OtherError e), s)
      | None \<Rightarrow>
          if \<not> accepts db r then (Inl bad_value, s)
          else let hit = filter (\<lambda>x. c_id x = c_id r \<and> cond x) (rows s) in
            if hit = [] then (Inr 0, s)
            else if key_taken r s then (Inl (UniqueViolation ''jobraft_tasks_idempotency_key_key''), s)
            else (Inr (length hit), s\<lparr>rows := map (\<lambda>x. if c_id x = c_id r \<and> cond x then stored_row db r else x) (rows s)\<rparr>))"

definition query_rows :: "(row \<Rightarrow> bool) \<Rightarrow> (row list \<Rightarrow> row list) \<Rightarrow> pg \<Rightarrow> error + task list" where
  "query_rows cond order s =
     (case stmt_error s 0 of Some e \<Rightarrow> Inl e | None \<Rightarrow> Inr (map scanTask (order (filter cond (rows s)))))"

definition query_one :: "(row \<Rightarrow> bool) \<Rightarrow> pg \<Rightarrow> error + task" where
  "query_one cond s =
     (case stmt_error s 0 of
        Some e \<Rightarrow> Inl e
      | None \<Rightarrow> (case List.find cond (rows s) of None \<Rightarrow> Inl ErrNotFound | Some r \<Rightarrow> Inr (scanTask r)))"

section \<open>Opening\<close>

text \<open>\<open>None\<close> stands for a database without the tables. The connection can fail to be set up, and the ping and the schema
  statement can fail.\<close>

definition PostgresStore_migrate :: "error option \<Rightarrow> (row list \<times> worker list) option \<Rightarrow> error option \<times> (row list \<times> worker list) option" where
  "PostgresStore_migrate err tables =
     (case err of
        Some e \<Rightarrow> (Some e, tables)
      | None \<Rightarrow> (None, Some (case tables of None \<Rightarrow> ([], []) | Some t \<Rightarrow> t)))"

definition NewPostgres ::
  "string \<Rightarrow> error option \<Rightarrow> error option \<Rightarrow> error option \<Rightarrow> (row list \<times> worker list) option \<Rightarrow> error option \<times> (row list \<times> worker list) option" where
  "NewPostgres dsn open_err ping_err schema_err tables =
     (if dsn = [] then (Some (ErrNew ''database URL is required''), tables)
      else case open_err of Some e \<Rightarrow> (Some e, tables) | None \<Rightarrow>
        (case ping_err of Some e \<Rightarrow> (Some e, tables) | None \<Rightarrow> PostgresStore_migrate schema_err tables))"

section \<open>Tasks\<close>

definition PostgresStore_Create :: "database \<Rightarrow> task \<Rightarrow> pg \<Rightarrow> error option \<times> pg" where
  "PostgresStore_Create db t s =
     (case Validate t of
        Some e \<Rightarrow> (Some e, s)
      | None \<Rightarrow> (let (err, s') = insert_task db (taskArgs t) s in (map_option mapPostgresError err, s')))"

definition PostgresStore_Get :: "string \<Rightarrow> pg \<Rightarrow> error + task" where
  "PostgresStore_Get i s = query_one (\<lambda>r. c_id r = i) s"

definition PostgresStore_GetByIdempotencyKey :: "string \<Rightarrow> pg \<Rightarrow> error + task" where
  "PostgresStore_GetByIdempotencyKey key s = query_one (\<lambda>r. c_idempotency_key r = Some key) s"

definition PostgresStore_List :: "database \<Rightarrow> pg \<Rightarrow> error + task list" where
  "PostgresStore_List db s = query_rows (\<lambda>_. True) (sort_key (\<lambda>r. (c_created_at r, collate db (c_id r)))) s"

definition due_row :: "gtime \<Rightarrow> row \<Rightarrow> bool" where
  "due_row now r \<longleftrightarrow> (c_status r = StatusPending \<or> c_status r = StatusRetrying) \<and> c_run_at r \<le> now"

definition due_order :: "database \<Rightarrow> row list \<Rightarrow> row list" where
  "due_order db = sort_key (\<lambda>r. (- c_priority r, c_run_at r, collate db (c_id r)))"

definition PostgresStore_ListDue :: "database \<Rightarrow> gtime \<Rightarrow> pg \<Rightarrow> error + task list" where
  "PostgresStore_ListDue db now s = query_rows (due_row now) (due_order db) s"

definition PostgresStore_ListExpired :: "database \<Rightarrow> gtime \<Rightarrow> pg \<Rightarrow> error + task list" where
  "PostgresStore_ListExpired db now s =
     query_rows (\<lambda>r. c_status r = StatusRunning \<and> (case c_lease_until r of None \<Rightarrow> False | Some u \<Rightarrow> u \<le> now))
       (sort_key (\<lambda>r. (the (c_lease_until r), collate db (c_id r)))) s"

definition PostgresStore_CountInFlight :: "pg \<Rightarrow> error + int" where
  "PostgresStore_CountInFlight s =
     (case stmt_error s 0 of
        Some e \<Rightarrow> Inl e
      | None \<Rightarrow> Inr (int (length (filter (\<lambda>r. c_status r \<in> set [StatusPending, StatusRetrying, StatusRunning]) (rows s)))))"

definition updated :: "(db_error + nat) \<times> pg \<Rightarrow> error option \<times> pg" where
  "updated r = (case fst r of Inl e \<Rightarrow> Some (mapPostgresError e) | Inr n \<Rightarrow> requireAffected n, snd r)"

definition PostgresStore_Update :: "database \<Rightarrow> task \<Rightarrow> pg \<Rightarrow> error option \<times> pg" where
  "PostgresStore_Update db t s =
     (case Validate t of
        Some e \<Rightarrow> (Some e, s)
      | None \<Rightarrow> updated (update_task db (taskArgs t) (\<lambda>_. True) s))"

definition PostgresStore_Delete :: "string \<Rightarrow> pg \<Rightarrow> error option \<times> pg" where
  "PostgresStore_Delete i s =
     (case stmt_error s 0 of
        Some e \<Rightarrow> (Some e, s)
      | None \<Rightarrow>
          if filter (\<lambda>r. c_id r = i) (rows s) = [] then (Some ErrNotFound, s)
          else (None, s\<lparr>rows := filter (\<lambda>r. c_id r \<noteq> i) (rows s)\<rparr>))"

text \<open>The id that the callers pass is not used: the statement takes the id of the task.\<close>

definition PostgresStore_updateIf :: "database \<Rightarrow> string \<Rightarrow> status \<Rightarrow> string \<Rightarrow> task \<Rightarrow> pg \<Rightarrow> error option \<times> pg" where
  "PostgresStore_updateIf db i st tok t s =
     (case Validate t of
        Some e \<Rightarrow> (Some e, s)
      | None \<Rightarrow> updated (update_task db (taskArgs t) (\<lambda>r. c_status r = st \<and> c_lease_token r = tok) s))"

definition PostgresStore_UpdateIfLease :: "database \<Rightarrow> string \<Rightarrow> string \<Rightarrow> task \<Rightarrow> pg \<Rightarrow> error option \<times> pg" where
  "PostgresStore_UpdateIfLease db i tok t s = PostgresStore_updateIf db i StatusRunning tok t s"

definition PostgresStore_UpdateIfState :: "database \<Rightarrow> string \<Rightarrow> status \<Rightarrow> string \<Rightarrow> task \<Rightarrow> pg \<Rightarrow> error option \<times> pg" where
  "PostgresStore_UpdateIfState db i st tok t s = PostgresStore_updateIf db i st tok t s"

section \<open>Claiming\<close>

definition newLeaseToken :: "pg \<Rightarrow> (error + string) \<times> pg" where
  "newLeaseToken s =
     (case rnd s of
        Some b # bs \<Rightarrow> (Inr (EncodeToString b), s\<lparr>rnd := bs\<rparr>)
      | _ \<Rightarrow> (Inl (ErrIO ''rand''), s\<lparr>rnd := tl (rnd s)\<rparr>))"

fun dep_statuses :: "(string \<rightharpoonup> status) \<Rightarrow> string list \<Rightarrow> bool \<times> string" where
  "dep_statuses st [] = (True, [])"
| "dep_statuses st (i # is') =
     (case st i of
        None \<Rightarrow> (False, ''dependency '' @ i @ '' not found'')
      | Some x \<Rightarrow>
          if x = StatusFailed \<or> x = StatusCanceled then (False, ''dependency '' @ i @ '' did not succeed'')
          else if x \<noteq> StatusSuccess then (False, [])
          else dep_statuses st is')"

text \<open>\<open>k\<close> is the number of the next statement of the transaction; the result has the number after it.\<close>

definition dependenciesInTx :: "nat \<Rightarrow> task \<Rightarrow> pg \<Rightarrow> nat \<times> (error + (bool \<times> string))" where
  "dependenciesInTx k t s =
     (if elems (DependsOn t) = [] then (k, Inr (True, []))
      else case stmt_error s k of
             Some e \<Rightarrow> (Suc k, Inl e)
           | None \<Rightarrow>
               (let found = filter (\<lambda>r. c_id r \<in> set (elems (DependsOn t))) (rows s);
                    statuses = map_of (map (\<lambda>r. (c_id r, c_status r)) (rev found)) in
                (Suc k, Inr (dep_statuses statuses (elems (DependsOn t))))))"

definition set_rows :: "string \<Rightarrow> (row \<Rightarrow> row) \<Rightarrow> pg \<Rightarrow> pg" where
  "set_rows i f s = s\<lparr>rows := map (\<lambda>r. if c_id r = i then f r else r) (rows s)\<rparr>"

definition fail_row :: "gtime \<Rightarrow> string \<Rightarrow> row \<Rightarrow> row" where
  "fail_row now reason r = r\<lparr>c_status := StatusFailed, c_last_error := reason, c_finished_at := Some now\<rparr>"

definition claim_row :: "database \<Rightarrow> task \<Rightarrow> row \<Rightarrow> row" where
  "claim_row db t r = r\<lparr>c_status := Status t, c_attempts := Attempts t, c_started_at := map_option (usec db) (StartedAt t),
     c_worker_id := WorkerID t, c_lease_until := map_option (usec db) (LeaseUntil t), c_lease_token := LeaseToken t\<rparr>"

text \<open>The loop over the candidates: the number of statements sent, the claimed task, if any, or the error that
  ends the transaction, and the tables as the transaction sees them.\<close>

fun claim_candidates ::
  "database \<Rightarrow> string \<Rightarrow> duration \<Rightarrow> gtime \<Rightarrow> gtime \<Rightarrow> nat \<Rightarrow> task list \<Rightarrow> pg \<Rightarrow> nat \<times> (error + task option) \<times> pg" where
  "claim_candidates db wid ttl txnow now k [] s = (k, Inr None, s)"
| "claim_candidates db wid ttl txnow now k (c # cs) s =
     (let (k1, res) = dependenciesInTx k c s in
      case res of
        Inl e \<Rightarrow> (k1, Inl e, s)
      | Inr (ready, reason) \<Rightarrow>
          if reason \<noteq> [] then
            (case stmt_error s k1 of
               Some e \<Rightarrow> (Suc k1, Inl e, s)
             | None \<Rightarrow> claim_candidates db wid ttl txnow now (Suc k1) cs (set_rows (ID c) (fail_row txnow reason) s))
          else if \<not> ready then claim_candidates db wid ttl txnow now k1 cs s
          else (let (tok, s1) = newLeaseToken s in
                case tok of
                  Inl e \<Rightarrow> (k1, Inl e, s1)
                | Inr token \<Rightarrow>
                    (let t = claimed_record wid now ttl token c in
                     case stmt_error s1 k1 of
                       Some e \<Rightarrow> (Suc k1, Inl e, s1)
                     | None \<Rightarrow> (Suc k1, Inr (Some t), set_rows (ID c) (claim_row db t) s1))))"

definition candidates :: "database \<Rightarrow> gtime \<Rightarrow> pg \<Rightarrow> row list" where
  "candidates db txnow s = take 64 (due_order db (filter (\<lambda>r. due_row txnow r \<and> \<not> locked s (c_id r)) (rows s)))"

text \<open>The whole transaction. An error after its begin rolls the tables back; the random bytes stay drawn.\<close>

definition PostgresStore_ClaimDue :: "database \<Rightarrow> string \<Rightarrow> duration \<Rightarrow> clock \<Rightarrow> pg \<Rightarrow> (error + task) \<times> pg" where
  "PostgresStore_ClaimDue db wid ttl clk s =
     (let txnow = NOW db (clk 0) in
      case stmt_error s 0 of Some e \<Rightarrow> (Inl e, s) | None \<Rightarrow>
      case stmt_error s 1 of Some e \<Rightarrow> (Inl e, s) | None \<Rightarrow>
      case List.find (\<lambda>w. wID w = wid) (wrows s) of
        None \<Rightarrow> (Inl ErrConflict, s)
      | Some w \<Rightarrow>
          if \<not> txnow < wLeaseUntil w then (Inr zero_task, s)
          else case stmt_error s 2 of Some e \<Rightarrow> (Inl e, s) | None \<Rightarrow>
            (let (k, res, s1) = claim_candidates db wid ttl txnow (clk 1) 3 (map scanTask (candidates db txnow s)) s;
                 undone = s1\<lparr>rows := rows s\<rparr> in
             case res of
               Inl e \<Rightarrow> (Inl e, undone)
             | Inr t \<Rightarrow>
                 (case stmt_error s1 k of
                    Some e \<Rightarrow> (Inl e, undone)
                  | None \<Rightarrow> (case t of None \<Rightarrow> Inl ErrNoTaskAvailable | Some c \<Rightarrow> Inr c, s1))))"

section \<open>Workers\<close>

definition PostgresStore_RegisterWorker :: "database \<Rightarrow> string \<Rightarrow> duration \<Rightarrow> gtime \<Rightarrow> pg \<Rightarrow> (error + worker) \<times> pg" where
  "PostgresStore_RegisterWorker db i ttl now s =
     (if i = [] then (Inl (ErrNew ''worker id is required''), s)
      else case stmt_error s 0 of
             Some e \<Rightarrow> (Inl e, s)
           | None \<Rightarrow>
               (let w = \<lparr>wID = i, LastHeartbeat = now, wLeaseUntil = now + ttl\<rparr>;
                    w' = \<lparr>wID = i, LastHeartbeat = usec db now, wLeaseUntil = usec db (now + ttl)\<rparr> in
                (Inr w, if \<exists>x \<in> set (wrows s). wID x = i
                        then s\<lparr>wrows := map (\<lambda>x. if wID x = i then w' else x) (wrows s)\<rparr>
                        else s\<lparr>wrows := wrows s @ [w']\<rparr>)))"

definition PostgresStore_HeartbeatWorker :: "database \<Rightarrow> string \<Rightarrow> duration \<Rightarrow> gtime \<Rightarrow> pg \<Rightarrow> (error + worker) \<times> pg" where
  "PostgresStore_HeartbeatWorker db i ttl now s =
     (case stmt_error s 0 of
        Some e \<Rightarrow> (Inl e, s)
      | None \<Rightarrow>
          (let w = \<lparr>wID = i, LastHeartbeat = now, wLeaseUntil = now + ttl\<rparr>;
               w' = \<lparr>wID = i, LastHeartbeat = usec db now, wLeaseUntil = usec db (now + ttl)\<rparr> in
           case requireAffected (length (filter (\<lambda>x. wID x = i) (wrows s))) of
             Some e \<Rightarrow> (Inl e, s)
           | None \<Rightarrow> (Inr w, s\<lparr>wrows := map (\<lambda>x. if wID x = i then w' else x) (wrows s)\<rparr>)))"

definition PostgresStore_GetWorker :: "string \<Rightarrow> pg \<Rightarrow> error + worker" where
  "PostgresStore_GetWorker i s =
     (case stmt_error s 0 of
        Some e \<Rightarrow> Inl e
      | None \<Rightarrow> (case List.find (\<lambda>w. wID w = i) (wrows s) of None \<Rightarrow> Inl ErrNotFound | Some w \<Rightarrow> Inr w))"

definition PostgresStore_ListWorkers :: "database \<Rightarrow> gtime \<Rightarrow> pg \<Rightarrow> error + worker list" where
  "PostgresStore_ListWorkers db now s =
     (case stmt_error s 0 of
        Some e \<Rightarrow> Inl e
      | None \<Rightarrow> Inr (sort_key (\<lambda>w. collate db (wID w)) (filter (\<lambda>w. now < wLeaseUntil w) (wrows s))))"

definition PostgresStore_RenewWorkerTaskLeases :: "database \<Rightarrow> string \<Rightarrow> gtime \<Rightarrow> pg \<Rightarrow> error option \<times> pg" where
  "PostgresStore_RenewWorkerTaskLeases db wid until s =
     (case stmt_error s 0 of
        Some e \<Rightarrow> (Some e, s)
      | None \<Rightarrow> (None, s\<lparr>rows := map (\<lambda>r. if c_worker_id r = wid \<and> c_status r = StatusRunning
                                          then r\<lparr>c_lease_until := Some (usec db until)\<rparr> else r) (rows s)\<rparr>))"

definition postgres_ops :: "database \<Rightarrow> pg store_ops" where
  "postgres_ops db = \<lparr>Create = PostgresStore_Create db, Get = PostgresStore_Get, List = PostgresStore_List db,
     Update = PostgresStore_Update db, Delete = PostgresStore_Delete,
     asConditionalUpdater = Some \<lparr>UpdateIfLease = PostgresStore_UpdateIfLease db, UpdateIfState = PostgresStore_UpdateIfState db\<rparr>,
     asAtomicClaimer = Some (PostgresStore_ClaimDue db), asInFlightCounter = Some PostgresStore_CountInFlight,
     asTaskScanner = Some \<lparr>ListDue = PostgresStore_ListDue db, ListExpired = PostgresStore_ListExpired db\<rparr>,
     asWorkerRegistry = Some \<lparr>RegisterWorker = PostgresStore_RegisterWorker db, HeartbeatWorker = PostgresStore_HeartbeatWorker db,
       GetWorker = PostgresStore_GetWorker, ListWorkers = PostgresStore_ListWorkers db,
       RenewWorkerTaskLeases = PostgresStore_RenewWorkerTaskLeases db\<rparr>,
     asIdempotencyFinder = Some PostgresStore_GetByIdempotencyKey, records = (\<lambda>s. length (rows s))\<rparr>"

end
