(* ===== verification/Postgres.thy ===== *)
theory Postgres
  imports Postgres_Model Store_Contract Queue_Order
begin

text \<open>
  What \<^verbatim>\<open>PostgresStore\<close> promises: round trips through the columns, conditional updates as compare-and-swap, and the claim
  transaction.
\<close>

section \<open>Rows by id\<close>

definition row_at :: "pg \<Rightarrow> string \<rightharpoonup> row" where
  "row_at s i = List.find (\<lambda>r. c_id r = i) (rows s)"

definition pg_look :: "pg \<Rightarrow> string \<rightharpoonup> task" where
  "pg_look s i = map_option scanTask (row_at s i)"

text \<open>The primary key and the unique constraint, which only concern the two columns; the code stores no empty key.\<close>

definition keys :: "pg \<Rightarrow> (string \<times> string option) list" where
  "keys s = map (\<lambda>r. (c_id r, c_idempotency_key r)) (rows s)"

definition keys_ok :: "(string \<times> string option) list \<Rightarrow> bool" where
  "keys_ok ks \<longleftrightarrow> distinct (map fst ks) \<and> (\<forall>x \<in> set ks. snd x \<noteq> Some [])
     \<and> (\<forall>x \<in> set ks. \<forall>y \<in> set ks. snd x \<noteq> None \<longrightarrow> snd x = snd y \<longrightarrow> fst x = fst y)"

definition pg_inv :: "pg \<Rightarrow> bool" where
  "pg_inv s \<longleftrightarrow> keys_ok (keys s)"

lemma pg_inv_ids: "pg_inv s \<Longrightarrow> distinct (map c_id (rows s))"
  by (simp add: pg_inv_def keys_ok_def keys_def comp_def)

lemma keys_ok_append:
  assumes "keys_ok ks" and "i \<notin> fst ` set ks" and "k \<noteq> Some []" and "k \<noteq> None \<Longrightarrow> k \<notin> snd ` set ks"
  shows "keys_ok (ks @ [(i, k)])"
  unfolding keys_ok_def
proof (intro conjI ballI impI)
  fix x y assume h: "x \<in> set (ks @ [(i, k)])" "y \<in> set (ks @ [(i, k)])" "snd x \<noteq> None" "snd x = snd y"
  consider "x \<in> set ks" "y \<in> set ks" | "x = (i, k)" "y = (i, k)" | "x \<in> set ks" "y = (i, k)" | "x = (i, k)" "y \<in> set ks"
    using h(1,2) by auto
  then show "fst x = fst y"
  proof cases
    case 1
    with assms(1) h(3,4) show ?thesis unfolding keys_ok_def by blast
  qed (use assms(4) h(3,4) in force)+
qed (use assms in \<open>auto simp: keys_ok_def\<close>)

lemma find_map_of: "List.find (\<lambda>r. c_id r = i) xs = map_of (map (\<lambda>r. (c_id r, r)) xs) i"
  by (induction xs) auto

lemma find_append: "List.find P (xs @ ys) = (case List.find P xs of None \<Rightarrow> List.find P ys | Some x \<Rightarrow> Some x)"
  by (induction xs) auto

lemma row_at_set: "row_at s i = Some r \<Longrightarrow> r \<in> set (rows s) \<and> c_id r = i"
  by (auto simp: row_at_def find_Some_iff)

lemma row_at_iff: "pg_inv s \<Longrightarrow> row_at s i = Some r \<longleftrightarrow> r \<in> set (rows s) \<and> c_id r = i"
proof -
  assume "pg_inv s"
  then have "distinct (map fst (map (\<lambda>r. (c_id r, r)) (rows s)))" by (simp add: pg_inv_ids comp_def)
  from Some_eq_map_of_iff [OF this, of r i] show ?thesis by (auto simp: row_at_def find_map_of)
qed

lemma row_at_None: "row_at s i = None \<longleftrightarrow> (\<forall>r \<in> set (rows s). c_id r \<noteq> i)"
  by (auto simp: row_at_def find_None_iff)


lemma row_at_rnd [simp]: "row_at (s\<lparr>rnd := x\<rparr>) = row_at s"
  by (simp add: row_at_def fun_eq_iff)

lemma c_id_records [simp]: "c_id (fail_row x m r) = c_id r" "c_id (claim_row db t r) = c_id r" "c_id (stored_row db r) = c_id r"
  "c_id (taskArgs t) = ID t" "ID (scanTask r) = c_id r" "Status (scanTask r) = c_status r" "LeaseToken (scanTask r) = c_lease_token r"
  by (simp_all add: fail_row_def claim_row_def stored_row_def taskArgs_def scanTask_def)

section \<open>Round trips\<close>

definition stored :: "database \<Rightarrow> task \<Rightarrow> task" where
  "stored db t = t\<lparr>DependsOn := Some (elems (DependsOn t)), Payload := map_option (jsonb db) (nullableJSON (Payload t)),
     Result := map_option (jsonb db) (nullableJSON (Result t)), RunAt := usec db (RunAt t), CreatedAt := usec db (CreatedAt t),
     StartedAt := map_option (usec db) (StartedAt t), FinishedAt := map_option (usec db) (FinishedAt t),
     LeaseUntil := map_option (usec db) (LeaseUntil t)\<rparr>"

lemma scan_stored: "scanTask (stored_row db (taskArgs t)) = stored db t"
  by (simp add: scanTask_def stored_row_def taskArgs_def stored_def)

text \<open>Values the database keeps as they are come back unchanged, up to nil slices.\<close>

definition kept :: "database \<Rightarrow> task \<Rightarrow> bool" where
  "kept db t \<longleftrightarrow> jsonb db (elems (Payload t)) = elems (Payload t) \<and> jsonb db (elems (Result t)) = elems (Result t)
     \<and> usec db (RunAt t) = RunAt t \<and> usec db (CreatedAt t) = CreatedAt t
     \<and> (\<forall>x \<in> set_option (StartedAt t) \<union> set_option (FinishedAt t) \<union> set_option (LeaseUntil t). usec db x = x)"

lemma map_option_kept: "(\<And>x. o1 = Some x \<Longrightarrow> f x = x) \<Longrightarrow> map_option f o1 = o1"
  by (cases o1) auto

lemma clone_stored:
  assumes "kept db t"
  shows "clone (stored db t) = clone t"
proof -
  have o: "map_option (usec db) (StartedAt t) = StartedAt t" "map_option (usec db) (FinishedAt t) = FinishedAt t"
    "map_option (usec db) (LeaseUntil t) = LeaseUntil t"
    using assms by (auto simp: kept_def intro!: map_option_kept)
  have j: "map_option (jsonb db) (nullableJSON (Payload t)) = append_nil (Payload t)"
    "map_option (jsonb db) (nullableJSON (Result t)) = append_nil (Result t)"
    using assms by (simp_all add: kept_def nullableJSON_def append_nil_def)
  have d: "append_nil (Some (elems (DependsOn t))) = append_nil (DependsOn t)" by (simp add: append_nil_def)
  show ?thesis using assms by (simp add: stored_def clone_def o j d kept_def)
qed

section \<open>Writes\<close>

lemma row_at_insert:
  "row_at s (c_id r) = None \<Longrightarrow> row_at (s\<lparr>rows := rows s @ [r]\<rparr>) = (row_at s)(c_id r \<mapsto> r)"
  by (rule ext) (auto simp: row_at_def find_map_of map_add_def split: option.split)

lemma find_map_put:
  "List.find (\<lambda>r. c_id r = j) (map (\<lambda>y. if c_id y = c_id r then r else y) xs)
     = (if j = c_id r then map_option (\<lambda>_. r) (List.find (\<lambda>y. c_id y = c_id r) xs) else List.find (\<lambda>r. c_id r = j) xs)"
  by (induction xs) auto

lemma find_filter_id:
  "List.find (\<lambda>r. c_id r = j) (filter (\<lambda>r. c_id r \<noteq> i) xs) = (if j = i then None else List.find (\<lambda>r. c_id r = j) xs)"
  by (induction xs) auto

lemma row_at_update:
  assumes "distinct (map c_id (rows s))" and "row_at s (c_id r) = Some x" and "cond x"
  shows "row_at (s\<lparr>rows := map (\<lambda>y. if c_id y = c_id r \<and> cond y then r else y) (rows s)\<rparr>) = (row_at s)(c_id r \<mapsto> r)"
proof -
  have m: "map (\<lambda>y. if c_id y = c_id r \<and> cond y then r else y) (rows s) = map (\<lambda>y. if c_id y = c_id r then r else y) (rows s)"
    using assms row_at_set [OF assms(2)] by (auto simp: inj_on_def distinct_map)
  have f: "List.find (\<lambda>y. c_id y = c_id r) (rows s) = Some x" using assms(2) by (simp add: row_at_def)
  show ?thesis by (rule ext) (simp add: row_at_def m find_map_put f)
qed

lemma row_at_delete: "row_at (s\<lparr>rows := filter (\<lambda>r. c_id r \<noteq> i) (rows s)\<rparr>) = (row_at s)(i := None)"
  by (rule ext) (simp add: row_at_def find_filter_id)

lemma pg_look_key:
  assumes "pg_inv s" and "key \<noteq> []"
  shows "key_free (pg_look s) key \<longleftrightarrow> (\<forall>x \<in> set (rows s). c_idempotency_key x \<noteq> Some key)"
proof -
  have "(\<exists>i t. pg_look s i = Some t \<and> IdempotencyKey t = key) \<longleftrightarrow> (\<exists>x \<in> set (rows s). IdempotencyKey (scanTask x) = key)"
    using row_at_iff [OF assms(1)] by (force simp: pg_look_def)
  moreover have "IdempotencyKey (scanTask x) = key \<longleftrightarrow> c_idempotency_key x = Some key" for x
    using assms(2) by (auto simp: scanTask_def split: option.splits)
  ultimately show ?thesis using assms(2) by (auto simp: key_free_def)
qed

text \<open>The specifications of the store contract, with the record the database keeps in place of the cloned one.\<close>

definition kept_meets :: "database \<Rightarrow> pg \<Rightarrow> task \<Rightarrow> error option \<times> pg \<Rightarrow> bool \<Rightarrow> bool" where
  "kept_meets db s t r allowed \<longleftrightarrow>
     (if allowed then fst r = None \<and> pg_look (snd r) = (pg_look s)(ID t \<mapsto> stored db t) \<and> pg_inv (snd r)
      else fst r \<noteq> None \<and> snd r = s)"

definition dup_id :: "task \<Rightarrow> pg \<Rightarrow> bool" where
  "dup_id t s \<longleftrightarrow> (\<exists>x \<in> set (rows s). c_id x = ID t)"

definition dup_key :: "task \<Rightarrow> pg \<Rightarrow> bool" where
  "dup_key t s \<longleftrightarrow> c_idempotency_key (taskArgs t) \<noteq> None \<and> (\<exists>x \<in> set (rows s). c_idempotency_key x = c_idempotency_key (taskArgs t))"

lemma create_eq:
  assumes "stmt_error s 0 = None" and "accepts db (taskArgs t)" and "Validate t = None"
  shows "PostgresStore_Create db t s =
     (if dup_key t s \<and> (key_first db \<or> \<not> dup_id t s) then (Some ErrDuplicateIdempotencyKey, s)
      else if dup_id t s then (Some ErrDuplicateID, s)
      else (None, s\<lparr>rows := rows s @ [stored_row db (taskArgs t)]\<rparr>))"
  unfolding PostgresStore_Create_def insert_task_def assms option.case Let_def c_id_records dup_id_def [symmetric] dup_key_def [symmetric]
  by (simp add: assms mapPostgresError_def)

lemma create_spec_iff:
  assumes "pg_inv s"
  shows "create_spec t (pg_look s) \<noteq> None \<longleftrightarrow> Validate t = None \<and> \<not> dup_key t s \<and> \<not> dup_id t s"
proof -
  have "key_free (pg_look s) (IdempotencyKey t) \<longleftrightarrow> \<not> dup_key t s"
    using pg_look_key [OF assms, of "IdempotencyKey t"] by (cases "IdempotencyKey t = []") (auto simp: key_free_def dup_key_def taskArgs_def)
  moreover have "pg_look s (ID t) = None \<longleftrightarrow> \<not> dup_id t s" by (auto simp: pg_look_def row_at_None dup_id_def)
  ultimately show ?thesis by (simp add: create_spec_def)
qed

lemma pg_inv_insert:
  assumes "pg_inv s" and "\<not> dup_key t s" and "\<not> dup_id t s"
  shows "pg_inv (s\<lparr>rows := rows s @ [stored_row db (taskArgs t)]\<rparr>)"
proof -
  let ?k = "c_idempotency_key (taskArgs t)"
  have "keys (s\<lparr>rows := rows s @ [stored_row db (taskArgs t)]\<rparr>) = keys s @ [(ID t, ?k)]" by (simp add: keys_def stored_row_def taskArgs_def)
  moreover have "?k \<noteq> Some []" by (simp add: taskArgs_def)
  moreover have "ID t \<notin> fst ` set (keys s)" "?k \<noteq> None \<Longrightarrow> ?k \<notin> snd ` set (keys s)"
    using assms(2,3) by (auto simp: keys_def dup_id_def dup_key_def)
  ultimately show ?thesis using keys_ok_append [of "keys s" "ID t" ?k] assms(1) by (simp add: pg_inv_def)
qed

lemma pg_create:
  assumes "pg_inv s" and "stmt_error s 0 = None" and "accepts db (taskArgs t)"
  shows "kept_meets db s t (PostgresStore_Create db t s) (create_spec t (pg_look s) \<noteq> None)"
proof (cases "create_spec t (pg_look s) \<noteq> None")
  case True
  then have ok: "Validate t = None" "\<not> dup_key t s" "\<not> dup_id t s" using create_spec_iff [OF assms(1), of t] by auto
  then have "row_at s (ID t) = None" by (simp add: row_at_None dup_id_def)
  with row_at_insert [of s "stored_row db (taskArgs t)"]
  have "pg_look (s\<lparr>rows := rows s @ [stored_row db (taskArgs t)]\<rparr>) = (pg_look s)(ID t \<mapsto> stored db t)"
    by (auto simp: pg_look_def fun_eq_iff scan_stored)
  with True create_eq [OF assms(2,3) ok(1)] ok pg_inv_insert [OF assms(1) ok(2,3)] show ?thesis by (simp add: kept_meets_def)
next
  case False
  then have "Validate t \<noteq> None \<or> dup_key t s \<or> dup_id t s" using create_spec_iff [OF assms(1), of t] by auto
  then have "fst (PostgresStore_Create db t s) \<noteq> None \<and> snd (PostgresStore_Create db t s) = s"
  proof (cases "Validate t")
    case None
    with \<open>_ \<or> _ \<or> _\<close> show ?thesis unfolding create_eq [OF assms(2,3) None] by auto
  qed (simp add: PostgresStore_Create_def)
  with False show ?thesis unfolding kept_meets_def by simp
qed

lemma keys_ok_subseq: "keys_ok ks \<Longrightarrow> keys_ok (filter P ks)"
  by (auto simp: keys_ok_def distinct_map_filter)

lemma pg_delete:
  assumes "pg_inv s" and "stmt_error s 0 = None"
  shows "if pg_look s i = None then PostgresStore_Delete i s = (Some ErrNotFound, s)
     else \<exists>s'. PostgresStore_Delete i s = (None, s') \<and> pg_look s' = (pg_look s)(i := None) \<and> pg_inv s'"
proof -
  have none: "pg_look s i = None \<longleftrightarrow> filter (\<lambda>r. c_id r = i) (rows s) = []"
    by (auto simp: pg_look_def row_at_None filter_empty_conv)
  let ?s = "s\<lparr>rows := filter (\<lambda>r. c_id r \<noteq> i) (rows s)\<rparr>"
  have "pg_look ?s = (pg_look s)(i := None)" by (auto simp: pg_look_def row_at_delete fun_eq_iff)
  moreover have "keys ?s = filter (\<lambda>x. fst x \<noteq> i) (keys s)" by (simp add: keys_def filter_map comp_def)
  then have "pg_inv ?s" using assms(1) keys_ok_subseq by (simp add: pg_inv_def)
  ultimately show ?thesis using assms(2) none by (simp add: PostgresStore_Delete_def)
qed

text \<open>A conditional update of a task whose idempotency key it leaves alone.\<close>

lemma same_key:
  assumes "pg_inv s" and "row_at s i = Some r"
  shows "IdempotencyKey (scanTask r) = IdempotencyKey t \<longleftrightarrow> c_idempotency_key r = c_idempotency_key (taskArgs t)"
proof -
  have "c_idempotency_key r \<noteq> Some []" using assms row_at_set [OF assms(2)] by (auto simp: pg_inv_def keys_ok_def keys_def)
  then show ?thesis by (cases "c_idempotency_key r") (auto simp: scanTask_def taskArgs_def)
qed

lemma key_in: "r \<in> set (rows s) \<Longrightarrow> (c_id r, c_idempotency_key r) \<in> set (keys s)"
  by (simp add: keys_def)

lemma key_not_taken:
  assumes "pg_inv s" and "row_at s (c_id r) = Some x" and "c_idempotency_key x = c_idempotency_key r"
  shows "\<not> key_taken r s"
proof
  assume "key_taken r s"
  then obtain y where y: "y \<in> set (rows s)" "c_id y \<noteq> c_id r" "c_idempotency_key y = c_idempotency_key r" "c_idempotency_key r \<noteq> None"
    by (auto simp: key_taken_def)
  have "(c_id y, c_idempotency_key y) \<in> set (keys s)" "(c_id x, c_idempotency_key x) \<in> set (keys s)"
    using key_in y(1) row_at_set [OF assms(2)] by blast+
  then have "c_id y = c_id x" using assms(1,3) y(3,4) unfolding pg_inv_def keys_ok_def by (metis fst_conv snd_conv)
  with y(2) row_at_set [OF assms(2)] show False by simp
qed

lemma pg_cas:
  assumes "pg_inv s" and "stmt_error s 0 = None" and "accepts db (taskArgs t)" and "ID t = i"
    and "\<And>c. pg_look s i = Some c \<Longrightarrow> IdempotencyKey c = IdempotencyKey t"
  shows "kept_meets db s t (PostgresStore_UpdateIfState db i st tok t s) (cas_spec i st tok t (pg_look s) \<noteq> None)"
proof -
  let ?c = "\<lambda>r. c_status r = st \<and> c_lease_token r = tok"
  let ?hit = "filter (\<lambda>x. c_id x = i \<and> ?c x) (rows s)"
  have upd: "PostgresStore_UpdateIfState db i st tok t s
      = (if Validate t = None then updated (update_task db (taskArgs t) ?c s) else (Validate t, s))"
    by (auto simp: PostgresStore_UpdateIfState_def PostgresStore_updateIf_def split: option.split)
  have hit: "?hit \<noteq> [] \<longleftrightarrow> (\<exists>r. row_at s i = Some r \<and> ?c r)"
    using row_at_iff [OF assms(1)] by (auto simp: filter_empty_conv)
  have spec: "cas_spec i st tok t (pg_look s) \<noteq> None \<longleftrightarrow> Validate t = None \<and> ?hit \<noteq> []"
    unfolding hit by (auto simp: cas_spec_def pg_look_def split: option.split)
  show ?thesis
  proof (cases "cas_spec i st tok t (pg_look s) \<noteq> None")
    case True
    then obtain r where v: "Validate t = None" "?hit \<noteq> []" and r: "row_at s i = Some r" "?c r" using spec hit by blast
    have key: "c_idempotency_key r = c_idempotency_key (taskArgs t)"
      using same_key [OF assms(1) r(1), of t] assms(5) r(1) by (simp add: pg_look_def)
    have free: "\<not> key_taken (taskArgs t) s" using key_not_taken [OF assms(1), of "taskArgs t" r] r(1) key assms(4) by simp
    let ?s = "s\<lparr>rows := map (\<lambda>x. if c_id x = i \<and> ?c x then stored_row db (taskArgs t) else x) (rows s)\<rparr>"
    have "update_task db (taskArgs t) ?c s = (Inr (length ?hit), ?s)"
      using v(2) free by (simp add: update_task_def assms(2-4) Let_def)
    then have u: "PostgresStore_UpdateIfState db i st tok t s = (None, ?s)"
      using v by (simp add: upd updated_def requireAffected_def)
    have "row_at ?s = (row_at s)(i \<mapsto> stored_row db (taskArgs t))"
      using row_at_update [of s "stored_row db (taskArgs t)" r ?c] pg_inv_ids [OF assms(1)] r assms(4) by simp
    then have "pg_look ?s = (pg_look s)(ID t \<mapsto> stored db t)" by (auto simp: pg_look_def fun_eq_iff scan_stored assms(4))
    moreover have "x = r" if "x \<in> set (rows s)" "c_id x = i" for x using row_at_iff [OF assms(1), of i x] that r(1) by simp
    then have "keys ?s = keys s" using key assms(4) by (auto simp: keys_def stored_row_def taskArgs_def)
    then have "pg_inv ?s" using assms(1) by (simp add: pg_inv_def)
    ultimately show ?thesis using True u by (simp add: kept_meets_def)
  next
    case False
    then have "Validate t = None \<Longrightarrow> ?hit = []" using spec by blast
    then have "fst (PostgresStore_UpdateIfState db i st tok t s) \<noteq> None \<and> snd (PostgresStore_UpdateIfState db i st tok t s) = s"
      unfolding upd by (auto simp: update_task_def assms(2-4) Let_def updated_def requireAffected_def)
    with False show ?thesis unfolding kept_meets_def by simp
  qed
qed

section \<open>The claim transaction\<close>


definition no_errors :: "pg \<Rightarrow> bool" where
  "no_errors s \<longleftrightarrow> (\<forall>k. stmt_error s k = None)"


lemma dep_statuses_cong: "(\<And>i. i \<in> set is' \<Longrightarrow> st i = st' i) \<Longrightarrow> dep_statuses st is' = dep_statuses st' is'"
  by (induction is') (auto split: option.split)

lemma statuses_of_rows:
  assumes "distinct (map c_id xs)" and "i \<in> set ds"
  shows "map_of (map (\<lambda>r. (c_id r, c_status r)) (rev (filter (\<lambda>r. c_id r \<in> set ds) xs))) i = map_option c_status (List.find (\<lambda>r. c_id r = i) xs)"
proof -
  let ?m = "\<lambda>ys. map (\<lambda>r. (c_id r, c_status r)) ys" and ?ys = "filter (\<lambda>r. c_id r \<in> set ds) xs"
  have "distinct (map fst (?m ?ys))" using distinct_map_filter [OF assms(1)] by (simp add: comp_def)
  then have "map_of (?m (rev ?ys)) = map_of (?m ?ys)" by (subst map_of_inject_set) (simp_all add: rev_map [symmetric])
  moreover have "map_of (?m ?ys) i = map_option c_status (List.find (\<lambda>r. c_id r = i) xs)" using assms(2) by (induction xs) auto
  ultimately show ?thesis by simp
qed

lemma dependenciesInTx_eq:
  assumes "pg_inv s" and "no_errors s"
  shows "\<exists>k'. dependenciesInTx k t s = (k', Inr (dep_statuses (\<lambda>i. map_option c_status (row_at s i)) (elems (DependsOn t))))"
proof (cases "elems (DependsOn t) = []")
  case False
  from assms(2) False show ?thesis
    by (simp add: dependenciesInTx_def no_errors_def Let_def row_at_def
        dep_statuses_cong [OF statuses_of_rows [OF pg_inv_ids [OF assms(1)]]])
qed (simp add: dependenciesInTx_def)



lemma fail_row_again [simp]: "fail_row now m (fail_row now m' r) = fail_row now m r"
  by (simp add: fail_row_def)
















section \<open>Properties\<close>

text \<open>A database that keeps every value, and one task to store in it.\<close>

definition demo_db :: database where
  "demo_db = \<lparr>accepts = (\<lambda>_. True), jsonb = id, usec = id, collate = id, NOW = id, key_first = True\<rparr>"

definition demo_row :: "string \<Rightarrow> string list \<Rightarrow> row" where
  "demo_row i ds = taskArgs (zero_task\<lparr>ID := i, Name := ''n'', DependsOn := Some ds, Status := StatusPending, RunAt := 1,
     Retry := \<lparr>MaxAttempts = 1, Backoff = 0\<rparr>\<rparr>)"

definition demo_pg :: "row list \<Rightarrow> pg" where
  "demo_pg rs = \<lparr>rows = rs, wrows = [\<lparr>wID = ''w'', LastHeartbeat = 0, wLeaseUntil = 10\<rparr>], stmt_error = (\<lambda>_. None), locked = (\<lambda>_. False),
     rnd = [Some [1, 2]]\<rparr>"

text \<open>C28: Over a database that accepts the row and reports no error, the writes of the PostgreSQL store implement the store contract. A create
  succeeds exactly when the specification allows it, and then the table has the stored form of the task under its id. A conditional
  update that keeps the idempotency key succeeds exactly when the row has the expected status and lease token, and changes only that row. A
  delete removes exactly its row or reports a missing task. In every other case the call fails and the tables stay as they are. The
  uniqueness of ids and keys is kept.\<close>

theorem postgres_store_refines:
  assumes "pg_inv s" and "stmt_error s 0 = None" and "accepts db (taskArgs t)"
  shows "kept_meets db s t (PostgresStore_Create db t s) (create_spec t (pg_look s) \<noteq> None)
    \<and> ((\<forall>c. pg_look s (ID t) = Some c \<longrightarrow> IdempotencyKey c = IdempotencyKey t) \<longrightarrow>
        kept_meets db s t (PostgresStore_UpdateIfState db (ID t) st tok t s) (cas_spec (ID t) st tok t (pg_look s) \<noteq> None)
        \<and> kept_meets db s t (PostgresStore_UpdateIfLease db (ID t) tok t s) (cas_spec (ID t) StatusRunning tok t (pg_look s) \<noteq> None))
    \<and> (if pg_look s i = None then PostgresStore_Delete i s = (Some ErrNotFound, s)
       else \<exists>s'. PostgresStore_Delete i s = (None, s') \<and> pg_look s' = (pg_look s)(i := None) \<and> pg_inv s')"
proof -
  have lease: "PostgresStore_UpdateIfLease db (ID t) tok t s = PostgresStore_UpdateIfState db (ID t) StatusRunning tok t s"
    by (simp add: PostgresStore_UpdateIfLease_def PostgresStore_UpdateIfState_def)
  show ?thesis unfolding lease
    using pg_create [OF assms] pg_cas [OF assms refl, of st tok] pg_cas [OF assms refl, of StatusRunning tok] pg_delete [OF assms(1,2), of i]
    by blast
qed

theorem postgres_store_refines_witness:
  "kept_meets demo_db (demo_pg []) (scanTask (demo_row ''a'' [])) (PostgresStore_Create demo_db (scanTask (demo_row ''a'' [])) (demo_pg [])) True"
proof -
  have c: "pg_inv (demo_pg []) \<and> accepts demo_db (taskArgs (scanTask (demo_row ''a'' []))) \<and> stmt_error (demo_pg []) 0 = None
     \<and> create_spec (scanTask (demo_row ''a'' [])) (pg_look (demo_pg [])) \<noteq> None"
    by (simp add: pg_inv_def keys_ok_def keys_def demo_pg_def demo_db_def create_spec_def pg_look_def row_at_def key_free_def)
       (code_simp)
  then show ?thesis using postgres_store_refines [of "demo_pg []" demo_db "scanTask (demo_row ''a'' [])"] by simp
qed

text \<open>C29: A created task is found by its id and by its idempotency key, in its stored form: nil slices, the normal form of its
  documents and the resolution of its times apart, the record that comes back is the one that went in.\<close>

theorem postgres_roundtrip:
  assumes "pg_inv s" and "\<forall>k. stmt_error s k = None" and "PostgresStore_Create db t s = (None, s')"
  shows "PostgresStore_Get (ID t) s' = Inr (stored db t)
    \<and> (IdempotencyKey t \<noteq> [] \<longrightarrow> PostgresStore_GetByIdempotencyKey (IdempotencyKey t) s' = Inr (stored db t))
    \<and> (kept db t \<longrightarrow> clone (stored db t) = clone t)"
proof -
  let ?r = "stored_row db (taskArgs t)"
  have v: "Validate t = None" using assms(3) by (auto simp: PostgresStore_Create_def split: option.splits)
  have a: "accepts db (taskArgs t)"
    using assms(2,3) v by (auto simp: PostgresStore_Create_def insert_task_def bad_value_def split: if_splits)
  have eq: "\<not> dup_key t s \<and> \<not> dup_id t s \<and> s' = s\<lparr>rows := rows s @ [?r]\<rparr>"
    using assms(3) create_eq [of s db t] assms(2) a v by (auto split: if_splits)
  then have "row_at s (ID t) = None" by (simp add: row_at_None dup_id_def)
  then have "List.find (\<lambda>r. c_id r = ID t) (rows s') = Some ?r" using eq by (simp add: row_at_def find_append)
  moreover have "List.find (\<lambda>r. c_idempotency_key r = Some (IdempotencyKey t)) (rows s') = Some ?r" if "IdempotencyKey t \<noteq> []"
  proof -
    have "c_idempotency_key ?r = Some (IdempotencyKey t)" using that by (simp add: stored_row_def taskArgs_def)
    moreover have "\<forall>x \<in> set (rows s). c_idempotency_key x \<noteq> Some (IdempotencyKey t)"
      using eq that by (auto simp: dup_key_def taskArgs_def)
    then have "List.find (\<lambda>r. c_idempotency_key r = Some (IdempotencyKey t)) (rows s) = None" by (simp add: find_None_iff)
    ultimately show ?thesis using eq by (simp add: find_append)
  qed
  moreover have "stmt_error s' = stmt_error s" using eq by simp
  ultimately show ?thesis
    using assms(2) clone_stored [of db t] by (simp add: PostgresStore_Get_def PostgresStore_GetByIdempotencyKey_def query_one_def scan_stored)
qed

theorem postgres_roundtrip_witness:
  "PostgresStore_Get ''a'' (snd (PostgresStore_Create demo_db (scanTask (demo_row ''a'' [])) (demo_pg []))) = Inr (stored demo_db (scanTask (demo_row ''a'' [])))"
proof -
  have "pg_inv (demo_pg [])" "\<forall>k. stmt_error (demo_pg []) k = None" by (simp_all add: pg_inv_def keys_ok_def keys_def demo_pg_def)
  moreover have "fst (PostgresStore_Create demo_db (scanTask (demo_row ''a'' [])) (demo_pg [])) = None" by code_simp
  then have "PostgresStore_Create demo_db (scanTask (demo_row ''a'' [])) (demo_pg [])
      = (None, snd (PostgresStore_Create demo_db (scanTask (demo_row ''a'' [])) (demo_pg [])))" by (metis prod.collapse)
  ultimately show ?thesis
    using postgres_roundtrip [of "demo_pg []" demo_db "scanTask (demo_row ''a'' [])"] by (simp add: demo_row_def taskArgs_def)
qed






text \<open>C30: The claim transaction, which reads all dependencies with one query into a map, decides about a task exactly as the
  scheduler does with one lookup per dependency: the same verdict and the same message, in the order the task lists them.\<close>

theorem dependencies_agree:
  assumes "pg_inv s" and "no_errors s"
  shows "snd (dependenciesInTx k t s) = Inr (Scheduler_dependenciesReady (postgres_ops db) t s)"
proof -
  have "dep_statuses (\<lambda>i. map_option c_status (row_at s i)) ds = ready_deps (postgres_ops db) s ds" for ds
    using assms(2) by (induction ds)
      (auto simp: postgres_ops_def PostgresStore_Get_def query_one_def no_errors_def row_at_def split: option.split)
  with dependenciesInTx_eq [OF assms, of k t] show ?thesis by (auto simp: Scheduler_dependenciesReady_def)
qed

theorem dependencies_agree_witness:
  "snd (dependenciesInTx 3 (scanTask (demo_row ''b'' [''a'', ''c''])) (demo_pg [(demo_row ''a'' [])\<lparr>c_status := StatusSuccess\<rparr>]))
     = Inr (Scheduler_dependenciesReady (postgres_ops demo_db) (scanTask (demo_row ''b'' [''a'', ''c''])) (demo_pg [(demo_row ''a'' [])\<lparr>c_status := StatusSuccess\<rparr>]))"
  by (rule dependencies_agree) (simp_all add: pg_inv_def keys_ok_def keys_def demo_pg_def no_errors_def demo_row_def taskArgs_def zero_task_def)

text \<open>C31: A worker whose lease has run out by the clock of the database, but not by that of the scheduler, is told that it has claimed a
  task: the store returns the zero task without an error, and \<^verbatim>\<open>Claim\<close> passes it on. No row has changed.\<close>

theorem claim_by_expired_worker:
  assumes "leaderGate s \<noteq> Some False" and "\<forall>k. stmt_error (store s) k = None"
    and "List.find (\<lambda>w. wID w = wid) (wrows (store s)) = Some w"
    and "clk 0 < wLeaseUntil w" and "wLeaseUntil w \<le> NOW db (clk 1)"
  shows "fst (Scheduler_Claim (postgres_ops db) wid clk s) = Inr zero_task
    \<and> store (snd (Scheduler_Claim (postgres_ops db) wid clk s)) = store s"
proof -
  have "Scheduler_workerHealthy (postgres_ops db) wid (clk 0) s"
    using assms(2-4) by (simp add: Scheduler_workerHealthy_def postgres_ops_def PostgresStore_GetWorker_def)
  moreover have "PostgresStore_ClaimDue db wid (leaseTTL s) (later 1 clk) (store s) = (Inr zero_task, store s)"
    using assms(2,3,5) by (simp add: PostgresStore_ClaimDue_def Let_def)
  ultimately show ?thesis
    using assms(1) by (simp add: Scheduler_Claim_def postgres_ops_def Scheduler_observeQueueLatency_def Let_def)
qed

theorem claim_by_expired_worker_witness:
  "fst (Scheduler_Claim (postgres_ops (demo_db\<lparr>NOW := (\<lambda>x. x + 1)\<rparr>)) ''w'' (\<lambda>_. 9) (Scheduler_New (demo_pg [demo_row ''a'' []]) 1 \<lparr>processTag = [], idCounter = 0\<rparr>))
     = Inr zero_task"
  using claim_by_expired_worker [of "Scheduler_New (demo_pg [demo_row ''a'' []]) 1 \<lparr>processTag = [], idCounter = 0\<rparr>" "''w''"
      "\<lparr>wID = ''w'', LastHeartbeat = 0, wLeaseUntil = 10\<rparr>" "\<lambda>_. 9" "demo_db\<lparr>NOW := (\<lambda>x. x + 1)\<rparr>"]
  by (simp add: Scheduler_New_def Let_def demo_pg_def demo_db_def)







end
