(* ===== verification/Http_Strings.thy ===== *)
theory Http_Strings
  imports JobRaft_Prelude
begin

text \<open>
  The string functions of Go's standard library that the API server and the worker client call: prefixes and
  suffixes, \<^verbatim>\<open>strings.Split\<close>, \<^verbatim>\<open>strings.TrimSpace\<close>, \<^verbatim>\<open>strconv.Atoi\<close>, \<^verbatim>\<open>url.PathEscape\<close> and \<^verbatim>\<open>url.PathUnescape\<close>, and the
  path cleaning of \<^verbatim>\<open>net/http\<close>. A string is its sequence of bytes.
\<close>

section \<open>Prefixes, suffixes, separators\<close>

definition TrimPrefix :: "string \<Rightarrow> string \<Rightarrow> string" where
  "TrimPrefix s pre = (if take (length pre) s = pre then drop (length pre) s else s)"

definition HasSuffix :: "string \<Rightarrow> string \<Rightarrow> bool" where
  "HasSuffix s suf \<longleftrightarrow> length suf \<le> length s \<and> drop (length s - length suf) s = suf"

definition TrimSuffix :: "string \<Rightarrow> string \<Rightarrow> string" where
  "TrimSuffix s suf = (if HasSuffix s suf then take (length s - length suf) s else s)"

fun Split :: "char \<Rightarrow> string \<Rightarrow> string list" where
  "Split c [] = [[]]"
| "Split c (x # xs) =
     (if x = c then [] # Split c xs
      else case Split c xs of [] \<Rightarrow> [[x]] | p # ps \<Rightarrow> (x # p) # ps)"

fun Join :: "string list \<Rightarrow> char \<Rightarrow> string" where
  "Join [] c = []"
| "Join [p] c = p"
| "Join (p # q # ps) c = p @ [c] @ Join (q # ps) c"

lemma TrimPrefix_append [simp]: "TrimPrefix (pre @ s) pre = s"
  by (simp add: TrimPrefix_def)

lemma HasSuffix_append [simp]: "HasSuffix (s @ suf) suf"
  by (simp add: HasSuffix_def)

lemma TrimSuffix_append [simp]: "TrimSuffix (s @ suf) suf = s"
  by (simp add: TrimSuffix_def)

lemma HasSuffix_iff: "HasSuffix s suf \<longleftrightarrow> (\<exists>p. s = p @ suf)"
proof
  assume "HasSuffix s suf"
  then have "s = take (length s - length suf) s @ suf" unfolding HasSuffix_def by (metis append_take_drop_id)
  then show "\<exists>p. s = p @ suf" ..
qed auto

lemma Split_nonempty [simp]: "Split c xs \<noteq> []"
  by (induction xs) (auto split: list.split)

lemma Split_no_sep: "c \<notin> set xs \<Longrightarrow> Split c xs = [xs]"
  by (induction xs) auto

lemma Split_append: "c \<notin> set xs \<Longrightarrow> Split c (xs @ c # ys) = xs # Split c ys"
  by (induction xs) (auto split: list.split)

section \<open>White space\<close>

text \<open>The UTF-8 encodings of the characters that \<^verbatim>\<open>unicode.IsSpace\<close> accepts.\<close>

definition space_runes :: "string list" where
  "space_runes =
     map (\<lambda>n. [char_of n]) [9::nat, 10, 11, 12, 13, 32]
     @ map (map char_of) [[194::nat, 133], [194, 160], [225, 154, 128], [226, 128, 168], [226, 128, 169],
          [226, 128, 175], [226, 129, 159], [227, 128, 128]]
     @ map (\<lambda>n. map char_of [226::nat, 128, n]) [128 ..< 139]"

definition space_prefix :: "string list \<Rightarrow> string \<Rightarrow> string option" where
  "space_prefix runes s = List.find (\<lambda>r. take (length r) s = r) runes"

text \<open>Strip leading characters from a list, each given by its bytes; a character has at least one byte, so the
  length of the string bounds the number of rounds.\<close>

fun strip :: "nat \<Rightarrow> string list \<Rightarrow> string \<Rightarrow> string" where
  "strip 0 runes s = s"
| "strip (Suc n) runes s =
     (case space_prefix runes s of None \<Rightarrow> s | Some r \<Rightarrow> strip n runes (drop (length r) s))"

definition TrimLeft :: "string \<Rightarrow> string" where
  "TrimLeft s = strip (length s) space_runes s"

definition TrimRight :: "string \<Rightarrow> string" where
  "TrimRight s = rev (strip (length s) (map rev space_runes) (rev s))"

definition TrimSpace :: "string \<Rightarrow> string" where
  "TrimSpace s = TrimRight (TrimLeft s)"

section \<open>Numbers\<close>

definition is_digit :: "char \<Rightarrow> bool" where
  "is_digit c \<longleftrightarrow> (48::nat) \<le> of_char c \<and> (of_char c :: nat) \<le> 57"

text \<open>\<^verbatim>\<open>strconv.Atoi\<close>: an optional sign, at least one digit, and a value that fits into 64 bits.\<close>

definition Atoi :: "string \<Rightarrow> error + int" where
  "Atoi s =
     (let (neg, ds) = (case s of [] \<Rightarrow> (False, [])
                       | c # cs \<Rightarrow> if c = CHR ''-'' then (True, cs) else if c = CHR ''+'' then (False, cs) else (False, s));
          v = (if neg then - int (undec 0 ds) else int (undec 0 ds)) in
      if ds = [] \<or> \<not> list_all is_digit ds then Inl (ErrNew ''invalid syntax'')
      else if v < - (2 ^ 63) \<or> v > 2 ^ 63 - 1 then Inl (ErrNew ''value out of range'')
      else Inr v)"

section \<open>Percent encoding\<close>

definition unhex :: "char \<Rightarrow> nat option" where
  "unhex c = (let n = of_char c in
     if 48 \<le> n \<and> n \<le> 57 then Some (n - 48)
     else if 97 \<le> n \<and> n \<le> 102 then Some (n - 87)
     else if 65 \<le> n \<and> n \<le> 70 then Some (n - 55)
     else None)"

definition escape_error :: error where
  "escape_error = ErrNew ''invalid URL escape''"

fun PathUnescape :: "string \<Rightarrow> error + string" where
  "PathUnescape [] = Inr []"
| "PathUnescape (c # cs) =
     (if c = CHR ''%'' then
        (case cs of
           h # l # rest \<Rightarrow>
             (case (unhex h, unhex l) of
                (Some a, Some b) \<Rightarrow>
                  (case PathUnescape rest of Inl e \<Rightarrow> Inl e | Inr s \<Rightarrow> Inr (char_of (16 * a + b) # s))
              | _ \<Rightarrow> Inl escape_error)
         | _ \<Rightarrow> Inl escape_error)
      else (case PathUnescape cs of Inl e \<Rightarrow> Inl e | Inr s \<Rightarrow> Inr (c # s)))"

text \<open>\<^verbatim>\<open>url.PathEscape\<close> leaves letters, digits and \<^verbatim>\<open>-_.~$&+=:@\<close> alone and writes every other byte as a percent sign and
  two upper-case hexadecimal digits.\<close>

definition upper_hex :: "nat \<Rightarrow> char" where
  "upper_hex n = (if n < 10 then char_of (48 + n) else char_of (55 + n))"

definition path_safe :: "char \<Rightarrow> bool" where
  "path_safe c \<longleftrightarrow> (let n = (of_char c :: nat) in
     (97 \<le> n \<and> n \<le> 122) \<or> (65 \<le> n \<and> n \<le> 90) \<or> (48 \<le> n \<and> n \<le> 57) \<or> c \<in> set ''-_.~$&+=:@'')"

fun PathEscape :: "string \<Rightarrow> string" where
  "PathEscape [] = []"
| "PathEscape (c # cs) =
     (if path_safe c then c # PathEscape cs
      else (let n = (of_char c :: nat) in CHR ''%'' # upper_hex (n div 16) # upper_hex (n mod 16) # PathEscape cs))"

lemma unhex_upper: "n < 16 \<Longrightarrow> unhex (upper_hex n) = Some n"
  by (auto simp: unhex_def upper_hex_def Let_def)

lemma path_safe_no_sep: "path_safe c \<Longrightarrow> c \<noteq> CHR ''%'' \<and> c \<noteq> CHR ''/'' \<and> c \<noteq> CHR ''?''"
  by (auto simp: path_safe_def Let_def)

lemma byte_halves: "(of_char c :: nat) div 16 < 16" "(of_char c :: nat) mod 16 < 16"
proof -
  have "(of_char c :: nat) < 256" by simp
  then show "(of_char c :: nat) div 16 < 16" by (simp add: less_mult_imp_div_less)
qed simp

lemma PathUnescape_PathEscape: "PathUnescape (PathEscape s) = Inr s"
proof (induction s)
  case (Cons c cs)
  note byte_halves [of c]
  moreover have "char_of (16 * (of_char c div 16) + of_char c mod 16 :: nat) = c" by simp
  ultimately show ?case
    using Cons path_safe_no_sep [of c] by (auto simp: Let_def unhex_upper)
qed simp

lemma unhex_slash: "unhex (CHR ''/'') = None"
  by (simp add: unhex_def)

lemma upper_hex_no_sep: "n < 16 \<Longrightarrow> upper_hex n \<noteq> CHR ''/''"
  by (metis unhex_upper option.distinct(1) unhex_slash)

lemma PathEscape_no_slash: "CHR ''/'' \<notin> set (PathEscape s)"
proof (induction s)
  case (Cons c cs)
  have "CHR ''/'' \<noteq> upper_hex (of_char c div 16)" "CHR ''/'' \<noteq> upper_hex (of_char c mod 16)"
    using upper_hex_no_sep [OF byte_halves(1), of c] upper_hex_no_sep [OF byte_halves(2), of c] by metis+
  then show ?case using Cons path_safe_no_sep [of c] by (auto simp: Let_def)
qed simp

lemma PathEscape_empty [simp]: "PathEscape s = [] \<longleftrightarrow> s = []"
  by (cases s) (auto simp: Let_def)

section \<open>Cleaning a path\<close>

text \<open>\<^verbatim>\<open>path.Clean\<close> of a rooted path, component by component: empty ones and dots are dropped, two dots remove the
  component before. The components collected so far are in reverse order.\<close>

fun clean_components :: "string list \<Rightarrow> string list \<Rightarrow> string list" where
  "clean_components [] acc = rev acc"
| "clean_components (p # ps) acc =
     (if p = [] \<or> p = ''.'' then clean_components ps acc
      else if p = ''..'' then clean_components ps (tl acc)
      else clean_components ps (p # acc))"

definition Clean :: "string \<Rightarrow> string" where
  "Clean p = CHR ''/'' # Join (clean_components (Split (CHR ''/'') p) []) (CHR ''/'')"

definition cleanPath :: "string \<Rightarrow> string" where
  "cleanPath p =
     (if p = [] then ''/''
      else let p1 = (if hd p = CHR ''/'' then p else CHR ''/'' # p); np = Clean p1 in
        if last p1 = CHR ''/'' \<and> np \<noteq> ''/''
        then (if length p1 = length np + 1 \<and> take (length np) p1 = np then p1 else np @ ''/'')
        else np)"

end
