(* ===== verification/Api_Model.thy ===== *)
theory Api_Model
  imports Scheduler_Model Registry_Model Http_Strings
begin

text \<open>
  The HTTP API of \<^verbatim>\<open>src/internal/api/server.go\<close>: authentication, routing and every handler, over any store.

  \<^item> A request carries what \<^verbatim>\<open>net/http\<close> makes of it: method, decoded and escaped path, the first value of a query
    parameter or header (empty when absent), and the body of some type \<open>'b\<close>. The JSON decoder is an argument:
    \<open>'b decoders\<close> has one decoding function for each of the structs the handlers decode into; a body beyond the
    size limit is one that does not decode. \<^verbatim>\<open>time.ParseDuration\<close> is an argument too.
  \<^item> A response is its status, the headers a handler sets beyond the content type, and the value that
    is written, before JSON encoding.
  \<^item> Handlers run on their own goroutines. Each handler but the long poll calls the scheduler once per item it
    handles; a long poll pauses between its claims, and what the other requests do to the scheduler during
    a pause is an argument of the poll.
\<close>

section \<open>Requests and responses\<close>

record 'b request =
  Method :: string
  URLPath :: string
  EscapedPath :: string
  Query :: "string \<Rightarrow> string"
  Header :: "string \<Rightarrow> string"
  Body :: 'b

record submit_request =
  rID :: string
  rName :: string
  rPriority :: int
  rDependsOn :: "string slice"
  rPayload :: "char slice"
  rRunAt :: "gtime option"
  rDelay :: duration
  rTimeout :: duration
  rSchedule :: duration
  rRetry :: retry_policy

record complete_request =
  rWorkerID :: string
  rLeaseToken :: string
  rError :: string
  rResult :: "char slice"

record 'b decoders =
  decode_id :: "'b \<Rightarrow> error + string"
  decode_ids :: "'b \<Rightarrow> error + string list"
  decode_submit :: "'b \<Rightarrow> error + submit_request"
  decode_token :: "'b \<Rightarrow> error + string"
  decode_complete :: "'b \<Rightarrow> error + complete_request"
  ParseDuration :: "string \<Rightarrow> error + duration"

record bulk_item =
  item_id :: string
  item_action :: string
  item_ok :: bool
  item_error :: "string option"

datatype body =
    NoBody
  | Text string
  | Fields "(string \<times> string) list"
  | TaskBody task
  | TasksBody "task list"
  | WorkerBody worker
  | WorkersBody "worker list"
  | ItemsBody "bulk_item list"
  | ClusterBody "node option" "node list"
  | MetricsBody "(string \<times> int) list"

record response =
  code :: int
  rheaders :: "(string \<times> string) list"
  rbody :: body

definition writeJSON :: "int \<Rightarrow> body \<Rightarrow> response" where
  "writeJSON st v = \<lparr>code = st, rheaders = [(''Content-Type'', ''application/json'')], rbody = v\<rparr>"

definition json_error :: "int \<Rightarrow> string \<Rightarrow> response" where
  "json_error st msg = writeJSON st (Fields [(''error'', msg)])"

definition WriteHeader :: "int \<Rightarrow> response" where
  "WriteHeader st = \<lparr>code = st, rheaders = [], rbody = NoBody\<rparr>"

definition NotFound :: response where
  "NotFound = \<lparr>code = 404, rheaders = [(''Content-Type'', ''text/plain; charset=utf-8''), (''X-Content-Type-Options'', ''nosniff'')],
     rbody = Text ''404 page not found''\<rparr>"

section \<open>The server\<close>

record ('s, 'r) server =
  sched :: "'s scheduler"
  registry :: "'r option"
  token :: string

definition Server_New :: "'s scheduler \<Rightarrow> ('s, 'r) server" where
  "Server_New s = \<lparr>sched = s, registry = None, token = []\<rparr>"

definition NewWithCluster :: "'s scheduler \<Rightarrow> 'r \<Rightarrow> ('s, 'r) server" where
  "NewWithCluster s r = \<lparr>sched = s, registry = Some r, token = []\<rparr>"

definition NewWithToken :: "'s scheduler \<Rightarrow> string \<Rightarrow> ('s, 'r) server" where
  "NewWithToken s tok = \<lparr>sched = s, registry = None, token = tok\<rparr>"

definition NewWithClusterToken :: "'s scheduler \<Rightarrow> 'r \<Rightarrow> string \<Rightarrow> ('s, 'r) server" where
  "NewWithClusterToken s r tok = \<lparr>sched = s, registry = Some r, token = tok\<rparr>"

record 'r registry_ops =
  reg_Leader :: "gtime \<Rightarrow> 'r \<Rightarrow> node option \<times> 'r"
  reg_List :: "gtime \<Rightarrow> 'r \<Rightarrow> node list \<times> 'r"

section \<open>Read-only pages\<close>

definition Server_healthz :: response where
  "Server_healthz = writeJSON 200 (Fields [(''status'', ''ok'')])"

definition Server_ready :: "'s store_ops \<Rightarrow> 'b request \<Rightarrow> ('s, 'r) server \<Rightarrow> response" where
  "Server_ready ops r s =
     (if Method r \<noteq> ''GET'' then WriteHeader 405
      else case Scheduler_List ops (sched s) of
             Inl e \<Rightarrow> writeJSON 503 (Fields [(''status'', ''not_ready''), (''error'', error_text e)])
           | Inr _ \<Rightarrow> writeJSON 200 (Fields [(''status'', ''ready'')]))"

text \<open>The text of the page is left out; it is a constant.\<close>

definition Server_admin :: "'b request \<Rightarrow> response" where
  "Server_admin r =
     (if Method r \<noteq> ''GET'' then WriteHeader 405
      else \<lparr>code = 200, rheaders = [(''Content-Type'', ''text/html; charset=utf-8'')], rbody = Text ''JobRaft Admin''\<rparr>)"

definition Server_cluster ::
  "'r registry_ops \<Rightarrow> clock \<Rightarrow> 'b request \<Rightarrow> ('s, 'r) server \<Rightarrow> response \<times> ('s, 'r) server" where
  "Server_cluster rops clk r s =
     (case registry s of
        None \<Rightarrow> (json_error 501 ''cluster election is not configured'', s)
      | Some reg \<Rightarrow>
          if Method r \<noteq> ''GET'' then (WriteHeader 405, s)
          else (let (n, reg1) = reg_Leader rops (clk 0) reg; (ns, reg2) = reg_List rops (clk 1) reg1 in
            (writeJSON 200 (ClusterBody n ns), s\<lparr>registry := Some reg2\<rparr>)))"

definition count_status :: "status \<Rightarrow> task list \<Rightarrow> int" where
  "count_status st items = foldl (\<lambda>n t. if Status t = st then n + 1 else n) 0 items"

definition Server_metrics :: "'s store_ops \<Rightarrow> clock \<Rightarrow> 'b request \<Rightarrow> ('s, 'r) server \<Rightarrow> response" where
  "Server_metrics ops clk r s =
     (if Method r \<noteq> ''GET'' then WriteHeader 405
      else let m = Scheduler_Metrics (sched s);
               (buckets, latencySum, latencyCount) = Scheduler_QueueLatencyHistogram (sched s);
               items = (case Scheduler_List ops (sched s) of Inl _ \<Rightarrow> [] | Inr xs \<Rightarrow> xs);
               online = length (Scheduler_Workers ops (clk 0) (sched s)) in
        \<lparr>code = 200, rheaders = [(''Content-Type'', ''text/plain; version=0.0.4'')], rbody = MetricsBody (
          [(''jobraft_tasks_submitted_total'', uint (Submitted m)), (''jobraft_tasks_succeeded_total'', uint (mSucceeded m)),
           (''jobraft_tasks_failed_total'', uint (mFailed m)), (''jobraft_tasks_retried_total'', uint (mRetried m)),
           (''jobraft_tasks_canceled_total'', uint (Canceled m)), (''jobraft_tasks_lease_expired_total'', uint (LeaseExpired m)),
           (''jobraft_tasks_pending'', count_status StatusPending items),
           (''jobraft_tasks_running'', count_status StatusRunning items),
           (''jobraft_tasks_retrying'', count_status StatusRetrying items), (''jobraft_workers_online'', int online)]
          @ map (\<lambda>i. (''jobraft_task_queue_latency_seconds_bucket'', uint (buckets ! i))) [0 ..< 8]
          @ [(''jobraft_task_queue_latency_seconds_sum'', latencySum), (''jobraft_task_queue_latency_seconds_count'', uint latencyCount)])\<rparr>)"

section \<open>Workers\<close>

definition Server_workers ::
  "'s store_ops \<Rightarrow> 'b decoders \<Rightarrow> clock \<Rightarrow> 'b request \<Rightarrow> ('s, 'r) server \<Rightarrow> response \<times> ('s, 'r) server" where
  "Server_workers ops dec clk r s =
     (if Method r = ''GET'' then (writeJSON 200 (WorkersBody (Scheduler_Workers ops (clk 0) (sched s))), s)
      else if Method r \<noteq> ''POST'' then (WriteHeader 405, s)
      else case decode_id dec (Body r) of
             Inl e \<Rightarrow> (json_error 400 (error_text e), s)
           | Inr i \<Rightarrow>
               (let (res, sc) = Scheduler_RegisterWorker ops i (clk 0) (sched s); s' = s\<lparr>sched := sc\<rparr> in
                case res of
                  Inl e \<Rightarrow> (json_error 400 (error_text e), s')
                | Inr w \<Rightarrow> (writeJSON 201 (WorkerBody w), s')))"

definition Server_workerRenew ::
  "'s store_ops \<Rightarrow> 'b decoders \<Rightarrow> clock \<Rightarrow> 'b request \<Rightarrow> ('s, 'r) server \<Rightarrow> response \<times> ('s, 'r) server" where
  "Server_workerRenew ops dec clk r s =
     (if Method r \<noteq> ''POST'' then (WriteHeader 405, s)
      else case Split (CHR ''/'') (TrimPrefix (EscapedPath r) ''/workers/'') of
             [w, p1, p2] \<Rightarrow>
               if p1 \<noteq> ''tasks'' \<or> p2 \<noteq> ''renew'' then (NotFound, s)
               else (case PathUnescape w of
                       Inl e \<Rightarrow> (NotFound, s)
                     | Inr workerID \<Rightarrow>
                         if workerID = [] then (NotFound, s)
                         else case decode_token dec (Body r) of
                                Inl e \<Rightarrow> (json_error 400 (error_text e), s)
                              | Inr tok \<Rightarrow>
                                  (let (res, sc) = Scheduler_RenewTaskLease ops workerID (Query r ''task'') tok clk (sched s);
                                       s' = s\<lparr>sched := sc\<rparr> in
                                   case res of
                                     Inl e \<Rightarrow> (json_error 409 (error_text e), s')
                                   | Inr t \<Rightarrow> (writeJSON 200 (TaskBody t), s')))
           | _ \<Rightarrow> (NotFound, s))"

subsection \<open>The long poll\<close>

definition claimRetryMin :: duration where "claimRetryMin = 50000000"
definition claimRetryMax :: duration where "claimRetryMax = 500000000"

text \<open>The world around a poll: the clock of its \<open>k\<close>-th claim, the reading of \<^verbatim>\<open>time.Until\<close> after it, whether the
  client goes away in the pause that follows, and what the rest of the process does to the scheduler
  meanwhile.\<close>

record 's poll_env =
  claim_clk :: "nat \<Rightarrow> clock"
  until_now :: "nat \<Rightarrow> gtime"
  ctx_done :: "nat \<Rightarrow> bool"
  others :: "nat \<Rightarrow> 's scheduler \<Rightarrow> 's scheduler"

definition next_interval :: "duration \<Rightarrow> duration" where
  "next_interval i =
     (if i < claimRetryMax then (if i * 2 > claimRetryMax then claimRetryMax else i * 2) else i)"

text \<open>The loop; the first argument bounds the number of claims, \<open>None\<close> means that it was used up. A handler that returns
  without writing anything has sent an empty reply with status 200.\<close>

fun claim_poll ::
  "nat \<Rightarrow> 's store_ops \<Rightarrow> 's poll_env \<Rightarrow> string \<Rightarrow> gtime \<Rightarrow> nat \<Rightarrow> duration \<Rightarrow> 's scheduler \<Rightarrow> (response \<times> 's scheduler) option" where
  "claim_poll 0 ops env wid deadline k i s = None"
| "claim_poll (Suc n) ops env wid deadline k i s =
     (let (res, s1) = Scheduler_Claim ops wid (claim_clk env k) s in
      case res of
        Inr t \<Rightarrow> Some (writeJSON 200 (TaskBody t), s1)
      | Inl e \<Rightarrow>
          if e \<noteq> ErrNoTask then Some (json_error 409 (error_text e), s1)
          else let remaining = sat64 (deadline - until_now env k) in
            if remaining \<le> 0 then Some (WriteHeader 204, s1)
            else let pause = (if i > remaining then remaining else i) in
              if ctx_done env k then Some (WriteHeader 200, s1)
              else claim_poll n ops env wid deadline (Suc k) (next_interval pause) (others env k s1))"

definition poll_deadline :: "'b decoders \<Rightarrow> string \<Rightarrow> gtime \<Rightarrow> gtime" where
  "poll_deadline dec wait now =
     (if wait = [] then now
      else case ParseDuration dec wait of
             Inl e \<Rightarrow> now
           | Inr d \<Rightarrow> if d > 0 \<and> d \<le> 30000000000 then now + d else now)"

definition Server_workerClaim ::
  "nat \<Rightarrow> 's store_ops \<Rightarrow> 'b decoders \<Rightarrow> gtime \<Rightarrow> 's poll_env \<Rightarrow> 'b request \<Rightarrow> ('s, 'r) server
   \<Rightarrow> (response \<times> ('s, 'r) server) option" where
  "Server_workerClaim fuel ops dec now env r s =
     (if Method r \<noteq> ''POST'' then Some (WriteHeader 405, s)
      else case PathUnescape (TrimSuffix (TrimPrefix (EscapedPath r) ''/workers/'') ''/claim'') of
             Inl e \<Rightarrow> Some (NotFound, s)
           | Inr path \<Rightarrow>
               if path = [] then Some (NotFound, s)
               else map_option (\<lambda>(resp, sc). (resp, s\<lparr>sched := sc\<rparr>))
                 (claim_poll fuel ops env path (poll_deadline dec (Query r ''wait'') now) 0 claimRetryMin (sched s)))"

definition Server_workerHeartbeat ::
  "nat \<Rightarrow> 's store_ops \<Rightarrow> 'b decoders \<Rightarrow> clock \<Rightarrow> 's poll_env \<Rightarrow> 'b request \<Rightarrow> ('s, 'r) server
   \<Rightarrow> (response \<times> ('s, 'r) server) option" where
  "Server_workerHeartbeat fuel ops dec clk env r s =
     (if HasSuffix (EscapedPath r) ''/claim'' then Server_workerClaim fuel ops dec (clk 0) env r s
      else if HasSuffix (EscapedPath r) ''/renew'' then Some (Server_workerRenew ops dec clk r s)
      else if Method r \<noteq> ''POST'' then Some (WriteHeader 405, s)
      else case PathUnescape (TrimPrefix (EscapedPath r) ''/workers/'') of
             Inl e \<Rightarrow> Some (NotFound, s)
           | Inr i \<Rightarrow>
               if i = [] then Some (NotFound, s)
               else (let (res, sc) = Scheduler_Heartbeat ops i (clk 0) (sched s); s' = s\<lparr>sched := sc\<rparr> in
                     case res of
                       Inl e \<Rightarrow> Some (json_error 404 (error_text e), s')
                     | Inr w \<Rightarrow> Some (writeJSON 200 (WorkerBody w), s')))"

section \<open>Tasks\<close>

definition validStatus :: "string \<Rightarrow> bool" where
  "validStatus v \<longleftrightarrow> v \<in> set [StatusPending, StatusRunning, StatusSuccess, StatusFailed, StatusRetrying, StatusCanceled]"

text \<open>The loop of the bulk deletion; the readings of the clock are one per cancellation.\<close>

fun bulk_loop ::
  "'s store_ops \<Rightarrow> bool \<Rightarrow> clock \<Rightarrow> string list \<Rightarrow> 's scheduler \<Rightarrow> bulk_item list \<times> 's scheduler" where
  "bulk_loop ops purge clk [] s = ([], s)"
| "bulk_loop ops purge clk (i # is') s =
     (let (err, s1) = (if purge then Scheduler_Purge ops i s else Scheduler_Cancel ops i (clk 0) s);
          (items, s2) = bulk_loop ops purge (later 1 clk) is' s1 in
      (\<lparr>item_id = i, item_action = (if purge then ''purged'' else ''canceled''), item_ok = (err = None),
        item_error = map_option error_text err\<rparr> # items, s2))"

definition Server_tasks_delete ::
  "'s store_ops \<Rightarrow> 'b decoders \<Rightarrow> clock \<Rightarrow> 'b request \<Rightarrow> ('s, 'r) server \<Rightarrow> response \<times> ('s, 'r) server" where
  "Server_tasks_delete ops dec clk r s =
     (case decode_ids dec (Body r) of
        Inl e \<Rightarrow> (json_error 400 ''ids must be a non-empty array'', s)
      | Inr [] \<Rightarrow> (json_error 400 ''ids must be a non-empty array'', s)
      | Inr ids' \<Rightarrow>
          (let (items, sc) = bulk_loop ops (Query r ''purge'' = ''true'') clk ids' (sched s) in
           (writeJSON 200 (ItemsBody items), s\<lparr>sched := sc\<rparr>)))"

definition list_filter :: "string \<Rightarrow> string \<Rightarrow> task \<Rightarrow> bool" where
  "list_filter statusFilter nameFilter t \<longleftrightarrow>
     \<not> (statusFilter \<noteq> [] \<and> Status t \<noteq> statusFilter) \<and> \<not> (nameFilter \<noteq> [] \<and> Name t \<noteq> nameFilter)"

definition parse_limit :: "string \<Rightarrow> int option" where
  "parse_limit raw =
     (if raw = [] then Some 0
      else case Atoi raw of Inl e \<Rightarrow> None | Inr n \<Rightarrow> if n < 1 then None else Some n)"

definition Server_tasks_get :: "'s store_ops \<Rightarrow> 'b request \<Rightarrow> ('s, 'r) server \<Rightarrow> response" where
  "Server_tasks_get ops r s =
     (case Scheduler_List ops (sched s) of
        Inl e \<Rightarrow> json_error 500 (error_text e)
      | Inr items \<Rightarrow>
          if Query r ''status'' \<noteq> [] \<and> \<not> validStatus (Query r ''status'')
          then json_error 400 ''invalid status filter''
          else let filtered = filter (list_filter (Query r ''status'') (Query r ''name'')) items in
            case parse_limit (Query r ''limit'') of
              None \<Rightarrow> json_error 400 ''limit must be a positive integer''
            | Some limit \<Rightarrow>
                writeJSON 200 (TasksBody (if limit > 0 \<and> int (length filtered) > limit then take (nat limit) filtered else filtered)))"

definition idempotency_key :: "'b request \<Rightarrow> string" where
  "idempotency_key r =
     (let key = TrimSpace (Header r ''Idempotency-Key'') in
      if key = [] then TrimSpace (Header r ''X-Idempotency-Key'') else key)"

definition requested_task :: "submit_request \<Rightarrow> string \<Rightarrow> gtime \<Rightarrow> task" where
  "requested_task q key now =
     zero_task\<lparr>ID := rID q, IdempotencyKey := key, Name := rName q, Priority := rPriority q, DependsOn := rDependsOn q,
       Payload := append_nil (rPayload q),
       RunAt := (case rRunAt q of Some u \<Rightarrow> u | None \<Rightarrow> if rDelay q > 0 then now + rDelay q else now),
       Timeout := rTimeout q, Schedule := rSchedule q, Retry := rRetry q\<rparr>"

text \<open>The reply to a refused submission.\<close>

definition submit_error :: "'s store_ops \<Rightarrow> string \<Rightarrow> error \<Rightarrow> 's scheduler \<Rightarrow> response" where
  "submit_error ops key e s =
     (case (if key \<noteq> [] \<and> errors_Is e ErrDuplicateIdempotencyKey then Scheduler_FindByIdempotencyKey ops key s else Inl ErrNotFound) of
        Inr existing \<Rightarrow> writeJSON 200 (TaskBody existing)
      | Inl _ \<Rightarrow>
          if e = ErrBackpressure then json_error 429 (error_text e)
          else if errors_Is e ErrDuplicateID then json_error 409 (error_text e)
          else json_error 400 (error_text e))"

definition Server_tasks_post ::
  "'s store_ops \<Rightarrow> 'b decoders \<Rightarrow> clock \<Rightarrow> 'b request \<Rightarrow> ('s, 'r) server \<Rightarrow> response \<times> ('s, 'r) server" where
  "Server_tasks_post ops dec clk r s =
     (case decode_submit dec (Body r) of
        Inl e \<Rightarrow> (json_error 400 (error_text e), s)
      | Inr q \<Rightarrow>
          (let key = idempotency_key r in
           if length key > 256 then (json_error 400 ''idempotency key is too long'', s)
           else
             (let t0 = requested_task q key (clk 0);
                  (t, sc0) = (if ID t0 = [] then (let (i, g) = NewID (clk 1) (ids (sched s)) in (t0\<lparr>ID := i\<rparr>, (sched s)\<lparr>ids := g\<rparr>))
                              else (t0, sched s));
                  (err, sc) = Scheduler_Submit ops (later 2 clk) t sc0; s' = s\<lparr>sched := sc\<rparr> in
              case err of
                Some e \<Rightarrow> (submit_error ops key e sc, s')
              | None \<Rightarrow>
                  (writeJSON 201 (TaskBody (case Scheduler_Get ops (ID t) sc of Inl _ \<Rightarrow> zero_task | Inr c \<Rightarrow> c)), s'))))"

definition Server_tasks ::
  "'s store_ops \<Rightarrow> 'b decoders \<Rightarrow> clock \<Rightarrow> 'b request \<Rightarrow> ('s, 'r) server \<Rightarrow> response \<times> ('s, 'r) server" where
  "Server_tasks ops dec clk r s =
     (if Method r = ''DELETE'' then Server_tasks_delete ops dec clk r s
      else if Method r = ''GET'' then (Server_tasks_get ops r s, s)
      else if Method r \<noteq> ''POST'' then (\<lparr>code = 405, rheaders = [(''Allow'', ''GET, POST, DELETE'')], rbody = NoBody\<rparr>, s)
      else Server_tasks_post ops dec clk r s)"

definition Server_taskByID ::
  "'s store_ops \<Rightarrow> 'b decoders \<Rightarrow> clock \<Rightarrow> 'b request \<Rightarrow> ('s, 'r) server \<Rightarrow> response \<times> ('s, 'r) server" where
  "Server_taskByID ops dec clk r s =
     (case PathUnescape (TrimPrefix (EscapedPath r) ''/tasks/'') of
        Inl e \<Rightarrow> (NotFound, s)
      | Inr i \<Rightarrow>
          if i = [] then (NotFound, s)
          else if Method r = ''DELETE'' then
            (let (err, sc) = Scheduler_Cancel ops i (clk 0) (sched s); s' = s\<lparr>sched := sc\<rparr> in
             case err of Some e \<Rightarrow> (NotFound, s') | None \<Rightarrow> (WriteHeader 204, s'))
          else if Method r = ''POST'' \<and> Query r ''complete'' = ''true'' then
            (case decode_complete dec (Body r) of
               Inl e \<Rightarrow> (json_error 400 (error_text e), s)
             | Inr q \<Rightarrow>
                 (let (err, sc) = Scheduler_CompleteTaskWithResult ops (rWorkerID q) i (rLeaseToken q) (rError q) (rResult q) clk (sched s);
                      s' = s\<lparr>sched := sc\<rparr> in
                  case err of Some e \<Rightarrow> (json_error 409 (error_text e), s') | None \<Rightarrow> (WriteHeader 204, s')))
          else if Method r \<noteq> ''GET'' then (WriteHeader 405, s)
          else case Scheduler_Get ops i (sched s) of
                 Inl e \<Rightarrow> (NotFound, s)
               | Inr t \<Rightarrow> (writeJSON 200 (TaskBody t), s))"

section \<open>Routing\<close>

datatype route = Healthz | Readyz | Metrics | Cluster | Admin | Tasks | TaskByID | Workers | WorkerByID | NoRoute

text \<open>The patterns of the mux are matched against the segments of the escaped path, each unescaped on its own.\<close>

definition path_unescape :: "string \<Rightarrow> string" where
  "path_unescape p = (case PathUnescape p of Inl _ \<Rightarrow> p | Inr u \<Rightarrow> u)"

definition mux_route :: "string \<Rightarrow> route" where
  "mux_route path =
     (case Split (CHR ''/'') (tl path) of
        [] \<Rightarrow> NoRoute
      | [seg] \<Rightarrow>
          (let p = path_unescape seg in
           if path = ''/'' then NoRoute
           else if p = ''healthz'' then Healthz else if p = ''readyz'' then Readyz else if p = ''metrics'' then Metrics
           else if p = ''cluster'' then Cluster else if p = ''admin'' then Admin else if p = ''tasks'' then Tasks
           else if p = ''workers'' then Workers else NoRoute)
      | seg # _ \<Rightarrow>
          (let p = path_unescape seg in
           if p = ''tasks'' then TaskByID else if p = ''workers'' then WorkerByID else NoRoute))"

definition serve_mux ::
  "nat \<Rightarrow> 's store_ops \<Rightarrow> 'r registry_ops \<Rightarrow> 'b decoders \<Rightarrow> clock \<Rightarrow> 's poll_env \<Rightarrow> 'b request \<Rightarrow> ('s, 'r) server
   \<Rightarrow> (response \<times> ('s, 'r) server) option" where
  "serve_mux fuel ops rops dec clk env r s =
     (let path = cleanPath (EscapedPath r) in
      if Method r \<noteq> ''CONNECT'' \<and> path \<noteq> EscapedPath r
      then Some (\<lparr>code = 301, rheaders = [(''Location'', path)], rbody = NoBody\<rparr>, s)
      else case mux_route (EscapedPath r) of
             Healthz \<Rightarrow> Some (Server_healthz, s)
           | Readyz \<Rightarrow> Some (Server_ready ops r s, s)
           | Metrics \<Rightarrow> Some (Server_metrics ops clk r s, s)
           | Cluster \<Rightarrow> Some (Server_cluster rops clk r s)
           | Admin \<Rightarrow> Some (Server_admin r, s)
           | Tasks \<Rightarrow> Some (Server_tasks ops dec clk r s)
           | TaskByID \<Rightarrow> Some (Server_taskByID ops dec clk r s)
           | Workers \<Rightarrow> Some (Server_workers ops dec clk r s)
           | WorkerByID \<Rightarrow> Server_workerHeartbeat fuel ops dec clk env r s
           | NoRoute \<Rightarrow> Some (NotFound, s))"

definition provided_token :: "'b request \<Rightarrow> string" where
  "provided_token r =
     (if Header r ''X-API-Key'' = [] then TrimPrefix (Header r ''Authorization'') ''Bearer '' else Header r ''X-API-Key'')"

definition Server_Handler ::
  "nat \<Rightarrow> 's store_ops \<Rightarrow> 'r registry_ops \<Rightarrow> 'b decoders \<Rightarrow> clock \<Rightarrow> 's poll_env \<Rightarrow> 'b request \<Rightarrow> ('s, 'r) server
   \<Rightarrow> (response \<times> ('s, 'r) server) option" where
  "Server_Handler fuel ops rops dec clk env r s =
     (if token s = [] then serve_mux fuel ops rops dec clk env r s
      else if URLPath r = ''/healthz'' \<or> URLPath r = ''/readyz'' then serve_mux fuel ops rops dec clk env r s
      else if provided_token r \<noteq> token s
        then Some (\<lparr>code = 401, rheaders = [(''WWW-Authenticate'', ''Bearer''), (''Content-Type'', ''application/json'')],
                    rbody = Fields [(''error'', ''authentication required'')]\<rparr>, s)
      else serve_mux fuel ops rops dec clk env r s)"

end
