(* ===== verification/Worker_Client.thy ===== *)
theory Worker_Client
  imports Api_Model
begin

text \<open>
  The client library for external workers, \<^verbatim>\<open>src/pkg/workerclient/client.go\<close>.

  \<^item> A request is what the client hands to \<^verbatim>\<open>net/http\<close>: method, URL, headers and body. The transport is the argument
    \<open>h\<close>: it may refuse a URL, and \<open>Do\<close> sends a request and returns an error or a response, and the new state of the world.
    JSON encoding of the bodies and decoding of the replies belong to this argument too.
  \<^item> The handler of the user and the two tickers run concurrently with the client. What \<^verbatim>\<open>select\<close> receives, in this
    order, is an argument of the loops: a list of events while a handler runs, a list of rounds for the outer
    loop. A list that ends while the loop still runs is an observation of the loop so far, not an end of it.
\<close>

section \<open>Requests and the transport\<close>

datatype client_body = IdBody string | TokenBody string | CompletionBody string string "error option" "char slice"

record 'b wire =
  wMethod :: string
  URL :: string
  wHeader :: "string \<Rightarrow> string"
  wBody :: 'b

record ('b, 'w) http =
  Marshal :: "client_body \<Rightarrow> error + 'b"
  empty_body :: 'b
  bad_URL :: "string \<Rightarrow> error option"
  Do :: "'b wire \<Rightarrow> 'w \<Rightarrow> (error + response) \<times> 'w"
  ReadAll :: "body \<Rightarrow> string"
  decode_task :: "body \<Rightarrow> error + task"

record client =
  BaseURL :: string
  cWorkerID :: string
  APIToken :: string
  PollInterval :: duration

definition trim_slashes :: "string \<Rightarrow> string" where
  "trim_slashes s = rev (dropWhile (\<lambda>c. c = CHR ''/'') (rev s))"

text \<open>\<^verbatim>\<open>url.QueryEscape\<close>.\<close>

fun QueryEscape :: "string \<Rightarrow> string" where
  "QueryEscape [] = []"
| "QueryEscape (c # cs) =
     (let n = (of_char c :: nat) in
      if c = CHR '' '' then CHR ''+'' # QueryEscape cs
      else if path_safe c \<and> c \<notin> set ''$&+=:@'' then c # QueryEscape cs
      else CHR ''%'' # upper_hex (n div 16) # upper_hex (n mod 16) # QueryEscape cs)"

text \<open>\<^verbatim>\<open>Duration.String\<close> of a positive duration: the unit follows the size below a second, and hours and minutes
  are only written when there are any.\<close>

definition fmtFrac :: "int \<Rightarrow> nat \<Rightarrow> string" where
  "fmtFrac v prec =
     (let ds = dec_int (v mod 10 ^ prec);
          frac = rev (dropWhile (\<lambda>c. c = CHR ''0'') (rev (replicate (prec - length ds) (CHR ''0'') @ ds))) in
      if frac = [] then [] else CHR ''.'' # frac)"

definition Duration_String :: "duration \<Rightarrow> string" where
  "Duration_String u =
     (if u = 0 then ''0s''
      else if u < 1000 then dec_int u @ ''ns''
      else if u < 1000000 then dec_int (u div 1000) @ fmtFrac u 3 @ map char_of [194 :: nat, 181] @ ''s''
      else if u < 1000000000 then dec_int (u div 1000000) @ fmtFrac u 6 @ ''ms''
      else let sec = u div 1000000000; mins = sec div 60; hours = mins div 60 in
        (if hours > 0 then dec_int hours @ ''h'' else []) @ (if mins > 0 then dec_int (mins mod 60) @ ''m'' else [])
        @ dec_int (sec mod 60) @ fmtFrac u 9 @ ''s'')"

definition bearer :: "client \<Rightarrow> string \<Rightarrow> string" where
  "bearer c k = (if k = ''Authorization'' \<and> APIToken c \<noteq> [] then ''Bearer '' @ APIToken c else [])"

section \<open>Calls\<close>

text \<open>The last argument decodes the body of the reply, as far as the caller wants it.\<close>

definition postJSON ::
  "('b, 'w) http \<Rightarrow> client \<Rightarrow> string \<Rightarrow> client_body option \<Rightarrow> (body \<Rightarrow> error + 'o) \<Rightarrow> 'w \<Rightarrow> (error + 'o) \<times> 'w" where
  "postJSON h c path body out w =
     (case (case body of None \<Rightarrow> Inr (empty_body h) | Some b \<Rightarrow> Marshal h b) of
        Inl e \<Rightarrow> (Inl e, w)
      | Inr data \<Rightarrow>
          (let url = trim_slashes (BaseURL c) @ path in
           case bad_URL h url of
             Some e \<Rightarrow> (Inl e, w)
           | None \<Rightarrow>
               (let req = \<lparr>wMethod = ''POST'', URL = url,
                           wHeader = (\<lambda>k. if k = ''Content-Type'' then ''application/json'' else bearer c k), wBody = data\<rparr>;
                    (res, w') = Do h req w in
                case res of
                  Inl e \<Rightarrow> (Inl e, w')
                | Inr resp \<Rightarrow>
                    if code resp < 200 \<or> code resp \<ge> 300 then (Inl (ErrNew (ReadAll h (rbody resp))), w')
                    else (out (rbody resp), w'))))"

definition no_out :: "body \<Rightarrow> error + unit" where
  "no_out b = Inr ()"

definition Client_Register :: "('b, 'w) http \<Rightarrow> client \<Rightarrow> 'w \<Rightarrow> (error + unit) \<times> 'w" where
  "Client_Register h c w = postJSON h c ''/workers'' (Some (IdBody (cWorkerID c))) no_out w"

definition Client_Heartbeat :: "('b, 'w) http \<Rightarrow> client \<Rightarrow> 'w \<Rightarrow> (error + unit) \<times> 'w" where
  "Client_Heartbeat h c w = postJSON h c (''/workers/'' @ PathEscape (cWorkerID c)) None no_out w"

definition claim_path :: "client \<Rightarrow> duration \<Rightarrow> string" where
  "claim_path c wait =
     ''/workers/'' @ PathEscape (cWorkerID c) @ ''/claim'' @ (if wait > 0 then ''?wait='' @ Duration_String wait else [])"

definition Client_ClaimWait :: "('b, 'w) http \<Rightarrow> client \<Rightarrow> duration \<Rightarrow> 'w \<Rightarrow> (error + task) \<times> 'w" where
  "Client_ClaimWait h c wait w =
     (let url = trim_slashes (BaseURL c) @ claim_path c wait in
      case bad_URL h url of
        Some e \<Rightarrow> (Inl e, w)
      | None \<Rightarrow>
          (let (res, w') = Do h \<lparr>wMethod = ''POST'', URL = url, wHeader = bearer c, wBody = empty_body h\<rparr> w in
           case res of
             Inl e \<Rightarrow> (Inl e, w')
           | Inr resp \<Rightarrow>
               if code resp = 204 then (Inl ErrNoTask, w')
               else if code resp \<noteq> 200 then (Inl (ErrNew (ReadAll h (rbody resp))), w')
               else (decode_task h (rbody resp), w')))"

definition Client_Claim :: "('b, 'w) http \<Rightarrow> client \<Rightarrow> 'w \<Rightarrow> (error + task) \<times> 'w" where
  "Client_Claim h c w = Client_ClaimWait h c 0 w"

definition Client_RenewLease :: "('b, 'w) http \<Rightarrow> client \<Rightarrow> task \<Rightarrow> 'w \<Rightarrow> (error + task) \<times> 'w" where
  "Client_RenewLease h c t w =
     postJSON h c (''/workers/'' @ PathEscape (cWorkerID c) @ ''/tasks/renew?task='' @ QueryEscape (ID t)) (Some (TokenBody (LeaseToken t)))
       (decode_task h) w"

definition Client_CompleteWithResult ::
  "('b, 'w) http \<Rightarrow> client \<Rightarrow> task \<Rightarrow> error option \<Rightarrow> char slice \<Rightarrow> 'w \<Rightarrow> (error + unit) \<times> 'w" where
  "Client_CompleteWithResult h c t err result w =
     postJSON h c (''/tasks/'' @ PathEscape (ID t) @ ''?complete=true'')
       (Some (CompletionBody (cWorkerID c) (LeaseToken t) err result)) no_out w"

definition Client_Complete :: "('b, 'w) http \<Rightarrow> client \<Rightarrow> task \<Rightarrow> error option \<Rightarrow> 'w \<Rightarrow> (error + unit) \<times> 'w" where
  "Client_Complete h c t err w = Client_CompleteWithResult h c t err None w"

section \<open>Running a handler\<close>

text \<open>An event of the loop around a handler: the handler has returned; the ticker fires, with what \<^verbatim>\<open>ctx.Err()\<close>
  says before and, should the renewal fail, after it; the context has ended.\<close>

datatype event = HandlerDone "error option" | Tick "error option" "error option" | CtxDone error

definition renew_interval :: "duration \<Rightarrow> gtime option \<Rightarrow> gtime \<Rightarrow> duration" where
  "renew_interval fallback lease now =
     (let i = (case lease of
                 None \<Rightarrow> fallback
               | Some until \<Rightarrow>
                   (let remaining = sat64 (until - now) div 3 in
                    if remaining > 0 \<and> (fallback \<le> 0 \<or> remaining < fallback) then remaining else fallback)) in
      if i \<le> 0 then 1000000000 else i)"

text \<open>The result is the pair of the source: the error of the handler, and the reason why the task is no longer to be
  reported. \<open>None\<close>: the handler still runs when the events end.\<close>

fun runHandler :: "('b, 'w) http \<Rightarrow> client \<Rightarrow> task \<Rightarrow> event list \<Rightarrow> 'w \<Rightarrow> (error option \<times> error option) option \<times> 'w" where
  "runHandler h c t [] w = (None, w)"
| "runHandler h c t (HandlerDone err # es) w = (Some (err, None), w)"
| "runHandler h c t (Tick before after # es) w =
     (case before of
        Some e \<Rightarrow> (Some (None, Some e), w)
      | None \<Rightarrow>
          (let (res, w') = Client_RenewLease h c t w in
           case res of
             Inl e \<Rightarrow> (Some (None, Some (case after of Some ctxErr \<Rightarrow> ctxErr | None \<Rightarrow> e)), w')
           | Inr _ \<Rightarrow> runHandler h c t es w'))"
| "runHandler h c t (CtxDone e # es) w = (Some (None, Some e), w)"

text \<open>A round of the outer loop: the events of its handler, should it claim a task, and what \<^verbatim>\<open>ctx.Done()\<close> or the
  ticker says when there is none.\<close>

record round =
  handler_events :: "event list"
  idle_end :: "error option"

definition poll_interval :: "client \<Rightarrow> duration" where
  "poll_interval c = (if PollInterval c \<le> 0 then 1000000000 else PollInterval c)"

text \<open>\<open>None\<close>: the loop still runs when the rounds end.\<close>

fun Run_loop :: "('b, 'w) http \<Rightarrow> client \<Rightarrow> round list \<Rightarrow> 'w \<Rightarrow> error option \<times> 'w" where
  "Run_loop h c [] w = (None, w)"
| "Run_loop h c (r # rs) w =
     (let (beat, w1) = Client_Heartbeat h c w in
      case beat of
        Inl e \<Rightarrow> (Some e, w1)
      | Inr _ \<Rightarrow>
          (let (res, w2) = Client_ClaimWait h c (poll_interval c) w1 in
           case res of
             Inr t \<Rightarrow>
               (let (ran, w3) = runHandler h c t (handler_events r) w2 in
                case ran of
                  None \<Rightarrow> (None, w3)
                | Some (runErr, Some leaseErr) \<Rightarrow> (Some leaseErr, w3)
                | Some (runErr, None) \<Rightarrow>
                    (let (done, w4) = Client_Complete h c t runErr w3 in
                     case done of Inl e \<Rightarrow> (Some e, w4) | Inr _ \<Rightarrow> Run_loop h c rs w4))
           | Inl e \<Rightarrow>
               if \<not> errors_Is e ErrNoTask then (Some e, w2)
               else (case idle_end r of Some ctxErr \<Rightarrow> (Some ctxErr, w2) | None \<Rightarrow> Run_loop h c rs w2)))"

definition Client_Run :: "('b, 'w) http \<Rightarrow> client \<Rightarrow> bool \<Rightarrow> round list \<Rightarrow> 'w \<Rightarrow> error option \<times> 'w" where
  "Client_Run h c has_handler rs w =
     (if cWorkerID c = [] \<or> BaseURL c = [] \<or> \<not> has_handler then (Some (ErrNew ''worker id, base URL and handler are required''), w)
      else (let (reg, w1) = Client_Register h c w in
            case reg of Inl e \<Rightarrow> (Some e, w1) | Inr _ \<Rightarrow> Run_loop h c rs w1))"

end
