(* ===== verification/Worker_Network.thy ===== *)
theory Worker_Network
  imports Worker_Client
begin

text \<open>
  The worker client and the API server together: the transport that carries the requests of the client to the
  handler of the server, with what \<^verbatim>\<open>net/http\<close> makes of a URL on the way, and the lemmas on escaping, cleaning and routing
  that bring a request to its handler.
\<close>

section \<open>The network\<close>

fun QueryUnescape_plus :: "string \<Rightarrow> string" where
  "QueryUnescape_plus [] = []"
| "QueryUnescape_plus (c # cs) = (if c = CHR ''+'' then CHR '' '' else c) # QueryUnescape_plus cs"

definition QueryUnescape :: "string \<Rightarrow> error + string" where
  "QueryUnescape s = PathUnescape (QueryUnescape_plus s)"

definition cut :: "char \<Rightarrow> string \<Rightarrow> string \<times> string" where
  "cut c s = (takeWhile (\<lambda>x. x \<noteq> c) s, drop 1 (dropWhile (\<lambda>x. x \<noteq> c) s))"

text \<open>\<^verbatim>\<open>url.ParseQuery\<close> and \<^verbatim>\<open>Values.Get\<close>: malformed settings are dropped, the first setting of a key counts.\<close>

fun query_get :: "string list \<Rightarrow> string \<Rightarrow> string" where
  "query_get [] k = []"
| "query_get (p # ps) k =
     (if p = [] \<or> CHR '';'' \<in> set p then query_get ps k
      else case (QueryUnescape (fst (cut (CHR ''='') p)), QueryUnescape (snd (cut (CHR ''='') p))) of
             (Inr k', Inr v) \<Rightarrow> if k' = k then v else query_get ps k
           | _ \<Rightarrow> query_get ps k)"

text \<open>The request as the server sees it, for a base URL that names scheme and host only. The paths that the client
  builds are in valid escaped form, so the server keeps them as they are.\<close>

definition receive :: "string \<Rightarrow> 'b wire \<Rightarrow> 'b request" where
  "receive base q =
     (let (path, raw) = cut (CHR ''?'') (drop (length base) (URL q)) in
      \<lparr>Method = wMethod q, URLPath = path_unescape path, EscapedPath = path,
       Query = query_get (Split (CHR ''&'') raw), Header = wHeader q, Body = wBody q\<rparr>)"

text \<open>The state of the world: the server, the number of requests that have arrived, and for each request the
  clock, the surroundings of a long poll, what others did to the server since the request before, and whether
  the connection fails before or after the server has handled it.\<close>

record ('s, 'r) net =
  srv :: "('s, 'r) server"
  arrived :: nat
  net_clk :: "nat \<Rightarrow> clock"
  net_env :: "nat \<Rightarrow> 's poll_env"
  meanwhile :: "nat \<Rightarrow> ('s, 'r) server \<Rightarrow> ('s, 'r) server"
  net_err :: "nat \<Rightarrow> error option"
  lost :: "nat \<Rightarrow> error option"

definition round_trip ::
  "'s store_ops \<Rightarrow> 'r registry_ops \<Rightarrow> 'b decoders \<Rightarrow> string \<Rightarrow> 'b wire \<Rightarrow> ('s, 'r) net \<Rightarrow> (error + response) \<times> ('s, 'r) net" where
  "round_trip ops rops dec base q n =
     (let k = arrived n; s = meanwhile n k (srv n); n1 = n\<lparr>arrived := Suc k, srv := s\<rparr> in
      case net_err n k of
        Some e \<Rightarrow> (Inl e, n1)
      | None \<Rightarrow>
          (case Server_Handler 65 ops rops dec (net_clk n k) (net_env n k) (receive base q) s of
             None \<Rightarrow> (Inl (ErrIO ''timeout''), n1)
           | Some (resp, s') \<Rightarrow> (case lost n k of None \<Rightarrow> Inr resp | Some e \<Rightarrow> Inl e, n1\<lparr>srv := s'\<rparr>)))"

text \<open>\<^verbatim>\<open>http.Client\<close> follows a permanent redirect of a POST with a GET without a body, at most ten times. The server
  redirects to a cleaned path, which it escapes again, and repeats the query.\<close>

definition escape_percent :: "string \<Rightarrow> string" where
  "escape_percent p = concat (map (\<lambda>c. if c = CHR ''%'' then ''%25'' else [c]) p)"

fun Do_following ::
  "nat \<Rightarrow> 's store_ops \<Rightarrow> 'r registry_ops \<Rightarrow> 'b decoders \<Rightarrow> 'b \<Rightarrow> string \<Rightarrow> 'b wire \<Rightarrow> ('s, 'r) net \<Rightarrow> (error + response) \<times> ('s, 'r) net" where
  "Do_following redirects ops rops dec none base q n =
     (let (res, n1) = round_trip ops rops dec base q n in
      case res of
        Inl e \<Rightarrow> (Inl e, n1)
      | Inr resp \<Rightarrow>
          if code resp \<noteq> 301 then (Inr resp, n1)
          else case redirects of
                 0 \<Rightarrow> (Inl (ErrNew ''stopped after 10 redirects''), n1)
               | Suc m \<Rightarrow>
                   (let raw = snd (cut (CHR ''?'') (drop (length base) (URL q)));
                        loc = escape_percent (the (map_of (rheaders resp) ''Location'')) @ (if raw = [] then [] else CHR ''?'' # raw) in
                    Do_following m ops rops dec none base \<lparr>wMethod = ''GET'', URL = base @ loc, wHeader = wHeader q, wBody = none\<rparr> n1))"

text \<open>The transport of a client whose base URL is the address of the server. \<open>enc\<close> encodes the bodies of the client, \<open>txt\<close>
  and \<open>untask\<close> read the replies.\<close>

definition server_http ::
  "'s store_ops \<Rightarrow> 'r registry_ops \<Rightarrow> 'b decoders \<Rightarrow> 'b \<Rightarrow> (client_body \<Rightarrow> error + 'b) \<Rightarrow> (body \<Rightarrow> string) \<Rightarrow> (body \<Rightarrow> error + task) \<Rightarrow> client
   \<Rightarrow> ('b, ('s, 'r) net) http" where
  "server_http ops rops dec none enc txt untask c =
     \<lparr>Marshal = enc, empty_body = none, bad_URL = (\<lambda>_. None), Do = Do_following 10 ops rops dec none (trim_slashes (BaseURL c)),
      ReadAll = txt, decode_task = untask\<rparr>"

section \<open>Escaping in queries\<close>

lemma QueryUnescape_QueryEscape: "QueryUnescape (QueryEscape s) = Inr s"
proof (induction s)
  case (Cons c cs)
  have plus: "upper_hex n \<noteq> CHR ''+''" if "n < 16" for n
    using unhex_upper [OF that] by (auto simp: unhex_def)
  note byte_halves [of c]
  moreover have "char_of (16 * (of_char c div 16) + of_char c mod 16 :: nat) = c" by simp
  ultimately show ?case
    using Cons path_safe_no_sep [of c] plus by (auto simp: Let_def QueryUnescape_def unhex_upper)
qed (simp add: QueryUnescape_def)

lemma upper_hex_plain: "n < 16 \<Longrightarrow> upper_hex n \<notin> set ''&;=?/''"
  using unhex_upper [of n] by (auto simp: unhex_def)

lemma path_safe_plain: "path_safe c \<Longrightarrow> c \<noteq> CHR '';'' \<and> c \<noteq> CHR ''?'' \<and> c \<noteq> CHR ''/''"
  by (auto simp: path_safe_def)

lemma QueryEscape_plain: "x \<in> set (QueryEscape s) \<Longrightarrow> x \<notin> set ''&;=?''"
proof (induction s)
  case (Cons c cs)
  from Cons.prems consider "x \<in> set (QueryEscape cs)" | "x = CHR ''+''" | "x = c" "path_safe c" "c \<notin> set ''$&+=:@''"
    | "x = CHR ''%''" | "x = upper_hex (of_char c div 16)" | "x = upper_hex (of_char c mod 16)"
    by (auto simp: Let_def split: if_splits)
  then show ?case
  proof cases
    case 3
    with path_safe_plain [of c] show ?thesis by auto
  next
    case 5
    with upper_hex_plain [OF byte_halves(1) [of c]] show ?thesis by auto
  next
    case 6
    with upper_hex_plain [OF byte_halves(2) [of c]] show ?thesis by auto
  qed (use Cons.IH in auto)
qed simp

lemma PathEscape_plain: "x \<in> set (PathEscape s) \<Longrightarrow> x \<noteq> CHR ''?''"
proof (induction s)
  case (Cons c cs)
  from Cons.prems consider "x \<in> set (PathEscape cs)" | "x = c" "path_safe c" | "x = CHR ''%''"
    | "x = upper_hex (of_char c div 16)" | "x = upper_hex (of_char c mod 16)"
    by (auto simp: Let_def split: if_splits)
  then show ?case
  proof cases
    case 2
    with path_safe_plain [of c] show ?thesis by auto
  next
    case 4
    with upper_hex_plain [OF byte_halves(1) [of c]] show ?thesis by auto
  next
    case 5
    with upper_hex_plain [OF byte_halves(2) [of c]] show ?thesis by auto
  qed (use Cons.IH in auto)
qed simp

lemma cut_at: "c \<notin> set xs \<Longrightarrow> cut c (xs @ c # ys) = (xs, ys)"
  by (auto simp: cut_def takeWhile_tail dropWhile_append)

lemma cut_none: "c \<notin> set xs \<Longrightarrow> cut c xs = (xs, [])"
proof -
  assume "c \<notin> set xs"
  then have tw: "takeWhile (\<lambda>x. x \<noteq> c) xs = xs" and dw: "dropWhile (\<lambda>x. x \<noteq> c) xs = []"
    by (auto simp: takeWhile_eq_all_conv dropWhile_eq_Nil_conv)
  show ?thesis unfolding cut_def tw dw by simp
qed

text \<open>A duration needs no escaping in a query.\<close>

lemma dec_nat_is_digit: "x \<in> set (dec_nat n) \<Longrightarrow> is_digit x"
proof (induction n rule: dec_nat.induct)
  case (1 n)
  show ?case
  proof (cases "n < 10")
    case True
    with "1.prems" show ?thesis by (subst (asm) dec_nat.simps) (simp add: is_digit_def of_char_digit)
  next
    case False
    with "1.prems" have "x \<in> set (dec_nat (n div 10)) \<or> x = digit (n mod 10)" by (subst (asm) dec_nat.simps) auto
    with False "1.IH" show ?thesis by (auto simp: is_digit_def of_char_digit)
  qed
qed

definition unescaped :: "char \<Rightarrow> bool" where
  "unescaped c \<longleftrightarrow> c \<notin> set ''%+&;=?''"

lemma unescaped_digit: "is_digit c \<Longrightarrow> unescaped c"
  by (auto simp: is_digit_def unescaped_def)

lemma unescaped_dec: "list_all unescaped (dec_int i)"
  using dec_nat_is_digit unescaped_digit by (auto simp: list_all_iff dec_int_def unescaped_def)

lemma unescaped_trim: "list_all unescaped xs \<Longrightarrow> list_all unescaped (rev (dropWhile P (rev xs)))"
  unfolding list_all_iff by (metis set_dropWhileD set_rev)

lemma unescaped_consts:
  "unescaped (CHR ''0'')" "unescaped (CHR ''.'')" "list_all unescaped ''0s''" "list_all unescaped ''ns''" "list_all unescaped ''ms''"
  "list_all unescaped ''s''" "list_all unescaped ''h''" "list_all unescaped ''m''" "list_all unescaped (map char_of [194 :: nat, 181])"
  by code_simp+

lemma unescaped_frac: "list_all unescaped (fmtFrac v prec)"
proof -
  let ?ds = "dec_int (v mod 10 ^ prec)"
  have "list_all unescaped (replicate (prec - length ?ds) (CHR ''0'') @ ?ds)"
    using unescaped_dec [of "v mod 10 ^ prec"] unescaped_consts(1) by (auto simp: list_all_iff)
  from unescaped_trim [OF this] unescaped_consts(2) show ?thesis by (simp add: fmtFrac_def Let_def del: rev_append)
qed

lemma unescaped_Duration: "list_all unescaped (Duration_String u)"
  unfolding Duration_String_def Let_def
  by (simp only: list_all_append unescaped_consts unescaped_dec unescaped_frac list.pred_inject(1) simp_thms if_split)

lemma QueryUnescape_plain: "list_all unescaped s \<Longrightarrow> QueryUnescape s = Inr s"
  by (induction s) (auto simp: QueryUnescape_def unescaped_def)

lemma query_one_setting:
  assumes "k \<noteq> []" and "list_all unescaped k" and "\<forall>x \<in> set v. x \<notin> set ''&;=?''" and "QueryUnescape v = Inr u"
  shows "query_get (Split (CHR ''&'') (k @ CHR ''='' # v)) k = u"
proof -
  have "CHR ''&'' \<notin> set (k @ CHR ''='' # v)" using assms(2,3) by (auto simp: list_all_iff unescaped_def)
  then have split: "Split (CHR ''&'') (k @ CHR ''='' # v) = [k @ CHR ''='' # v]" by (rule Split_no_sep)
  have "CHR '';'' \<notin> set (k @ CHR ''='' # v)" "CHR ''='' \<notin> set k" using assms(2,3) by (auto simp: list_all_iff unescaped_def)
  then show ?thesis using assms(1,4) QueryUnescape_plain [OF assms(2)] unfolding split by (simp add: cut_at)
qed

section \<open>Routing\<close>

definition plain_segment :: "string \<Rightarrow> bool" where
  "plain_segment p \<longleftrightarrow> p \<noteq> [] \<and> p \<noteq> ''.'' \<and> p \<noteq> ''..'' \<and> CHR ''/'' \<notin> set p"

lemma clean_plain: "\<forall>p \<in> set ps. plain_segment p \<Longrightarrow> clean_components ps acc = rev acc @ ps"
  by (induction ps arbitrary: acc) (auto simp: plain_segment_def)

lemma Split_Join: "ps \<noteq> [] \<Longrightarrow> \<forall>p \<in> set ps. c \<notin> set p \<Longrightarrow> Split c (Join ps c) = ps"
proof (induction ps c rule: Join.induct)
  case (3 p q ps c)
  then show ?case using Split_append [of c p "Join (q # ps) c"] by simp
qed (simp_all add: Split_no_sep)

lemma last_Join: "ps \<noteq> [] \<Longrightarrow> last ps \<noteq> [] \<Longrightarrow> Join ps c \<noteq> [] \<and> last (Join ps c) = last (last ps)"
  by (induction ps c rule: Join.induct) auto

lemma cleanPath_plain:
  assumes "ps \<noteq> []" and "\<forall>p \<in> set ps. plain_segment p"
  shows "cleanPath (CHR ''/'' # Join ps (CHR ''/'')) = CHR ''/'' # Join ps (CHR ''/'')"
proof -
  let ?p = "CHR ''/'' # Join ps (CHR ''/'')"
  have "Split (CHR ''/'') ?p = [] # ps" using Split_Join [OF assms(1), of "CHR ''/''"] assms(2) by (simp add: plain_segment_def)
  then have clean: "Clean ?p = ?p" using clean_plain [OF assms(2), of "[]"] by (simp add: Clean_def)
  have "plain_segment (last ps)" using assms by simp
  then have "last (Join ps (CHR ''/'')) = last (last ps) \<and> Join ps (CHR ''/'') \<noteq> [] \<and> last (last ps) \<noteq> CHR ''/''"
    using last_Join [OF assms(1)] by (auto simp: plain_segment_def dest: last_in_set)
  then show ?thesis using clean by (simp add: cleanPath_def)
qed

lemma PathEscape_dots: "PathEscape s = ''.'' \<longleftrightarrow> s = ''.''" "PathEscape s = ''..'' \<longleftrightarrow> s = ''..''"
proof -
  have e: "PathEscape ''.'' = ''.''" "PathEscape ''..'' = ''..''" by code_simp+
  show "PathEscape s = ''.'' \<longleftrightarrow> s = ''.''" "PathEscape s = ''..'' \<longleftrightarrow> s = ''..''"
    using PathUnescape_PathEscape [of s] PathUnescape_PathEscape [of "''.''"] PathUnescape_PathEscape [of "''..''"] e by auto
qed

lemma PathEscape_segment: "plain_segment (PathEscape s) \<longleftrightarrow> s \<noteq> [] \<and> s \<noteq> ''.'' \<and> s \<noteq> ''..''"
  using PathEscape_dots [of s] PathEscape_no_slash [of s] by (auto simp: plain_segment_def)

end
