(* ===== verification/Worker_Loop.thy ===== *)
theory Worker_Loop
  imports Worker_Client
begin

text \<open>
  The protocol of the worker loop over any transport: which request may follow which. The loop runs on a transport that
  notes every request it sends and the reply, and the notes are read by an automaton.
\<close>

section \<open>Requests noted\<close>

type_synonym 'b exchange = "'b wire \<times> (error + response)"

definition noted :: "('b, 'w) http \<Rightarrow> ('b, 'w \<times> 'b exchange list) http" where
  "noted h = \<lparr>Marshal = Marshal h, empty_body = empty_body h, bad_URL = bad_URL h,
     Do = (\<lambda>q (w, tr). let (res, w') = Do h q w in (res, (w', tr @ [(q, res)]))), ReadAll = ReadAll h, decode_task = decode_task h\<rparr>"

definition to_path :: "client \<Rightarrow> string \<Rightarrow> 'b wire \<Rightarrow> bool" where
  "to_path c path q \<longleftrightarrow> wMethod q = ''POST'' \<and> URL q = trim_slashes (BaseURL c) @ path"

definition accepted :: "error + response \<Rightarrow> bool" where
  "accepted r = (case r of Inl _ \<Rightarrow> False | Inr resp \<Rightarrow> 200 \<le> code resp \<and> code resp < 300)"

section \<open>The protocol\<close>

datatype phase = Unregistered | Idle | Alive | Holding task | Stopped

text \<open>The task a reply to a claim hands out, if any, and whether the reply says that there is none.\<close>

definition handed_out :: "('b, 'w) http \<Rightarrow> error + response \<Rightarrow> error + task" where
  "handed_out h r =
     (case r of
        Inl e \<Rightarrow> Inl e
      | Inr resp \<Rightarrow> if code resp = 204 then Inl ErrNoTask else if code resp \<noteq> 200 then Inl (ErrNew (ReadAll h (rbody resp)))
                    else decode_task h (rbody resp))"

definition is_renewal :: "('b, 'w) http \<Rightarrow> client \<Rightarrow> task \<Rightarrow> 'b wire \<Rightarrow> bool" where
  "is_renewal h c t q \<longleftrightarrow> to_path c (''/workers/'' @ PathEscape (cWorkerID c) @ ''/tasks/renew?task='' @ QueryEscape (ID t)) q
     \<and> Marshal h (TokenBody (LeaseToken t)) = Inr (wBody q)"

definition is_report :: "('b, 'w) http \<Rightarrow> client \<Rightarrow> task \<Rightarrow> 'b wire \<Rightarrow> bool" where
  "is_report h c t q \<longleftrightarrow> to_path c (''/tasks/'' @ PathEscape (ID t) @ ''?complete=true'') q
     \<and> (\<exists>err. Marshal h (CompletionBody (cWorkerID c) (LeaseToken t) err None) = Inr (wBody q))"

definition renewal_ok :: "('b, 'w) http \<Rightarrow> error + response \<Rightarrow> bool" where
  "renewal_ok h r \<longleftrightarrow> accepted r \<and> (case r of Inl _ \<Rightarrow> False | Inr resp \<Rightarrow> (\<exists>t. decode_task h (rbody resp) = Inr t))"

text \<open>A worker registers first. It is idle between tasks: it sends a heartbeat, then a claim. While it holds a task it may renew
  its lease, and the report ends the task. Any refusal stops it.\<close>

inductive allowed :: "('b, 'w) http \<Rightarrow> client \<Rightarrow> phase \<Rightarrow> 'b exchange \<Rightarrow> phase \<Rightarrow> bool" for h c where
  register: "to_path c ''/workers'' q \<Longrightarrow> allowed h c Unregistered (q, r) (if accepted r then Idle else Stopped)"
| beat: "to_path c (''/workers/'' @ PathEscape (cWorkerID c)) q \<Longrightarrow> allowed h c Idle (q, r) (if accepted r then Alive else Stopped)"
| claim: "to_path c (claim_path c (poll_interval c)) q \<Longrightarrow> handed_out h r = Inr t \<Longrightarrow> allowed h c Alive (q, r) (Holding t)"
| no_claim: "to_path c (claim_path c (poll_interval c)) q \<Longrightarrow> handed_out h r = Inl e \<Longrightarrow>
    allowed h c Alive (q, r) (if errors_Is e ErrNoTask then Idle else Stopped)"
| renew: "is_renewal h c t q \<Longrightarrow> allowed h c (Holding t) (q, r) (if renewal_ok h r then Holding t else Stopped)"
| report: "is_report h c t q \<Longrightarrow> allowed h c (Holding t) (q, r) (if accepted r then Idle else Stopped)"

inductive keeps :: "('b, 'w) http \<Rightarrow> client \<Rightarrow> 'b exchange list \<Rightarrow> phase \<Rightarrow> bool" for h c where
  start: "keeps h c [] Unregistered"
| step: "keeps h c tr p \<Longrightarrow> allowed h c p x p' \<Longrightarrow> keeps h c (tr @ [x]) p'"

inductive_cases allowed_StoppedE: "allowed h c Stopped x p"

section \<open>Every call is one exchange\<close>

lemma postJSON_noted:
  assumes "postJSON (noted h) c path body out (w, tr) = (res, (w', tr'))"
  obtains (unsent) e where "tr' = tr" "res = Inl e"
  | (sent) q r where "tr' = tr @ [(q, r)]" "to_path c path q"
      "case body of None \<Rightarrow> True | Some b \<Rightarrow> Marshal h b = Inr (wBody q)"
      "case res of Inr x \<Rightarrow> accepted r \<and> (\<exists>resp. r = Inr resp \<and> out (rbody resp) = Inr x)
       | Inl e \<Rightarrow> \<not> accepted r \<or> (\<exists>resp. r = Inr resp \<and> out (rbody resp) = Inl e)"
proof -
  let ?data = "case body of None \<Rightarrow> Inr (empty_body h) | Some b \<Rightarrow> Marshal h b"
  let ?url = "trim_slashes (BaseURL c) @ path"
  show thesis
  proof (cases "(\<exists>e. ?data = Inl e) \<or> bad_URL h ?url \<noteq> None")
    case True
    then have "tr' = tr \<and> (\<exists>e. res = Inl e)"
      using assms by (auto simp: postJSON_def noted_def Let_def split: sum.splits option.splits)
    then show thesis using unsent by blast
  next
    case False
    then obtain d where d: "?data = Inr d" and url: "bad_URL h ?url = None" by (cases ?data) auto
    let ?q = "\<lparr>wMethod = ''POST'', URL = ?url, wHeader = (\<lambda>k. if k = ''Content-Type'' then ''application/json'' else bearer c k), wBody = d\<rparr>"
    obtain r w1 where r: "Do h ?q w = (r, w1)" by fastforce
    have p: "postJSON (noted h) c path body out (w, tr) =
       (case r of Inl e \<Rightarrow> Inl e | Inr resp \<Rightarrow> if code resp < 200 \<or> code resp \<ge> 300 then Inl (ErrNew (ReadAll h (rbody resp))) else out (rbody resp),
        (w1, tr @ [(?q, r)]))"
      using d url r by (auto simp: postJSON_def noted_def Let_def split: sum.split option.splits)
    show thesis
    proof (rule sent [of ?q r])
      show "tr' = tr @ [(?q, r)]" using assms p by simp
      show "to_path c path ?q" by (simp add: to_path_def)
      show "case body of None \<Rightarrow> True | Some b \<Rightarrow> Marshal h b = Inr (wBody ?q)" using d by (simp split: option.splits)
      show "case res of Inr x \<Rightarrow> accepted r \<and> (\<exists>resp. r = Inr resp \<and> out (rbody resp) = Inr x)
       | Inl e \<Rightarrow> \<not> accepted r \<or> (\<exists>resp. r = Inr resp \<and> out (rbody resp) = Inl e)"
        using assms p by (auto simp: accepted_def split: sum.splits if_splits)
    qed
  qed
qed

lemma claim_noted:
  assumes "Client_ClaimWait (noted h) c wait (w, tr) = (res, (w', tr'))"
  shows "(tr' = tr \<and> (\<exists>u e. res = Inl e \<and> bad_URL h u = Some e)) \<or> (\<exists>q r. tr' = tr @ [(q, r)] \<and> to_path c (claim_path c wait) q \<and> res = handed_out h r)"
proof -
  let ?url = "trim_slashes (BaseURL c) @ claim_path c wait"
  let ?q = "\<lparr>wMethod = ''POST'', URL = ?url, wHeader = bearer c, wBody = empty_body h\<rparr>"
  obtain r w1 where r: "Do h ?q w = (r, w1)" by fastforce
  show ?thesis
  proof (cases "bad_URL h ?url")
    case None
    then have "tr' = tr @ [(?q, r)] \<and> res = handed_out h r"
      using assms r by (auto simp: Client_ClaimWait_def noted_def handed_out_def Let_def split: sum.splits if_splits)
    moreover have "to_path c (claim_path c wait) ?q" by (simp add: to_path_def)
    ultimately show ?thesis by blast
  qed (use assms in \<open>auto simp: Client_ClaimWait_def noted_def\<close>)
qed

section \<open>The loop\<close>

text \<open>The notes so far are legal and leave the worker in phase \<open>p\<close>; a call then extends them.\<close>

lemma register_keeps:
  assumes "keeps h c tr Unregistered" and "Client_Register (noted h) c (w, tr) = (res, (w', tr'))"
  shows "\<exists>p. keeps h c tr' p \<and> (res = Inr u \<longrightarrow> p = Idle)"
  using assms(2) [unfolded Client_Register_def]
proof (cases rule: postJSON_noted)
  case (sent q r)
  then have "keeps h c tr' (if accepted r then Idle else Stopped)" using keeps.step [OF assms(1) allowed.register [of c q h r]] by simp
  with sent(4) show ?thesis by (cases res) auto
qed (use assms(1) in auto)

lemma heartbeat_keeps:
  assumes "keeps h c tr Idle" and "Client_Heartbeat (noted h) c (w, tr) = (res, (w', tr'))"
  shows "\<exists>p. keeps h c tr' p \<and> (res = Inr u \<longrightarrow> p = Alive)"
  using assms(2) [unfolded Client_Heartbeat_def]
proof (cases rule: postJSON_noted)
  case (sent q r)
  then have "keeps h c tr' (if accepted r then Alive else Stopped)" using keeps.step [OF assms(1) allowed.beat [of c q h r]] by simp
  with sent(4) show ?thesis by (cases res) auto
qed (use assms(1) in auto)

lemma claim_keeps:
  assumes "keeps h c tr Alive" and "Client_ClaimWait (noted h) c (poll_interval c) (w, tr) = (res, (w', tr'))"
    and "\<forall>u e. bad_URL h u = Some e \<longrightarrow> \<not> errors_Is e ErrNoTask"
  shows "\<exists>p. keeps h c tr' p \<and> (case res of Inr t \<Rightarrow> p = Holding t | Inl e \<Rightarrow> errors_Is e ErrNoTask \<longrightarrow> p = Idle)"
  using claim_noted [OF assms(2)]
proof (elim disjE exE conjE)
  fix q r assume x: "tr' = tr @ [(q, r)]" "to_path c (claim_path c (poll_interval c)) q" "res = handed_out h r"
  show ?thesis
  proof (cases res)
    case (Inl e)
    with x have "allowed h c Alive (q, r) (if errors_Is e ErrNoTask then Idle else Stopped)" by (intro allowed.no_claim) auto
    from keeps.step [OF assms(1) this] x(1) Inl show ?thesis by auto
  next
    case (Inr t)
    with x have "allowed h c Alive (q, r) (Holding t)" by (intro allowed.claim) auto
    from keeps.step [OF assms(1) this] x(1) Inr show ?thesis by auto
  qed
qed (use assms(1,3) in auto)

lemma report_keeps:
  assumes "keeps h c tr (Holding t)" and "Client_Complete (noted h) c t err (w, tr) = (res, (w', tr'))"
  shows "\<exists>p. keeps h c tr' p \<and> (res = Inr u \<longrightarrow> p = Idle)"
  using assms(2) [unfolded Client_Complete_def Client_CompleteWithResult_def]
proof (cases rule: postJSON_noted)
  case (sent q r)
  then have "is_report h c t q" by (auto simp: is_report_def)
  from keeps.step [OF assms(1) allowed.report [OF this, of r]] sent(1) have "keeps h c tr' (if accepted r then Idle else Stopped)" by simp
  with sent(4) show ?thesis by (cases res) auto
qed (use assms(1) in auto)

lemma renew_keeps:
  assumes "keeps h c tr (Holding t)" and "Client_RenewLease (noted h) c t (w, tr) = (res, (w', tr'))"
  shows "\<exists>p. keeps h c tr' p \<and> (\<forall>u. res = Inr u \<longrightarrow> p = Holding t)"
  using assms(2) [unfolded Client_RenewLease_def]
proof (cases rule: postJSON_noted)
  case (sent q r)
  then have "is_renewal h c t q" by (auto simp: is_renewal_def)
  from keeps.step [OF assms(1) allowed.renew [OF this, of r]] sent(1) have k: "keeps h c tr' (if renewal_ok h r then Holding t else Stopped)" by simp
  have "renewal_ok h r" if "res = Inr u" for u using sent(4) that by (auto simp: renewal_ok_def noted_def)
  with k show ?thesis by (cases res) auto
qed (use assms(1) in auto)

lemma handler_keeps:
  assumes "keeps h c tr (Holding t)" and "runHandler (noted h) c t es (w, tr) = (res, (w', tr'))"
  shows "\<exists>p. keeps h c tr' p \<and> (\<forall>err. res = Some (err, None) \<longrightarrow> p = Holding t)"
  using assms
proof (induction "noted h" c t es "(w, tr)" arbitrary: w tr rule: runHandler.induct)
  case (3 c t before after es)
  show ?case
  proof (cases before)
    case None
    obtain r w1 tr1 where rn: "Client_RenewLease (noted h) c t (w, tr) = (r, (w1, tr1))" by (metis prod.collapse)
    from renew_keeps [OF "3.prems"(1) rn] obtain p where p: "keeps h c tr1 p" "\<forall>u. r = Inr u \<longrightarrow> p = Holding t" by blast
    show ?thesis
    proof (cases r)
      case (Inl e)
      with "3.prems"(2) None rn p show ?thesis by (auto split: option.splits)
    next
      case (Inr u)
      with "3.hyps" [OF None rn [symmetric] refl Inr] "3.prems"(2) None rn p show ?thesis by simp
    qed
  qed (use "3.prems" in auto)
qed auto

lemma loop_keeps:
  assumes "\<forall>u e. bad_URL h u = Some e \<longrightarrow> \<not> errors_Is e ErrNoTask"
    and "keeps h c tr Idle" and "Run_loop (noted h) c rs (w, tr) = (res, (w', tr'))"
  shows "\<exists>p. keeps h c tr' p"
  using assms(2,3)
proof (induction rs arbitrary: w tr)
  case (Cons r rs)
  obtain beat w1 tr1 where b: "Client_Heartbeat (noted h) c (w, tr) = (beat, (w1, tr1))" by (metis prod.collapse)
  obtain cl w2 tr2 where cl: "Client_ClaimWait (noted h) c (poll_interval c) (w1, tr1) = (cl, (w2, tr2))" by (metis prod.collapse)
  from heartbeat_keeps [OF Cons.prems(1) b] obtain p1 where p1: "keeps h c tr1 p1" "beat = Inr () \<longrightarrow> p1 = Alive" by blast
  show ?case
  proof (cases beat)
    case (Inl e)
    with Cons.prems(2) b p1 show ?thesis by auto
  next
    case alive: (Inr u)
    then have "keeps h c tr1 Alive" using p1 by simp
    from claim_keeps [OF this cl assms(1)] obtain p2 where p2: "keeps h c tr2 p2"
      "case cl of Inr t \<Rightarrow> p2 = Holding t | Inl e \<Rightarrow> errors_Is e ErrNoTask \<longrightarrow> p2 = Idle" by blast
    show ?thesis
    proof (cases cl)
      case (Inl e)
      show ?thesis
      proof (cases "errors_Is e ErrNoTask \<and> idle_end r = None")
        case True
        then have "Run_loop (noted h) c rs (w2, tr2) = (res, (w', tr'))" using Cons.prems(2) b cl alive Inl by simp
        with Cons.IH True p2 Inl show ?thesis by auto
      next
        case False
        then have "tr' = tr2" using Cons.prems(2) b cl alive Inl by (auto split: if_splits option.splits)
        with p2 show ?thesis by blast
      qed
    next
      case (Inr t)
      obtain ran w3 tr3 where ran: "runHandler (noted h) c t (handler_events r) (w2, tr2) = (ran, (w3, tr3))" by (metis prod.collapse)
      have held: "keeps h c tr2 (Holding t)" using p2 Inr by simp
      show ?thesis
      proof (cases "\<exists>err. ran = Some (err, None)")
        case True
        then obtain err where err: "ran = Some (err, None)" by blast
        obtain fin w4 tr4 where fin: "Client_Complete (noted h) c t err (w3, tr3) = (fin, (w4, tr4))" by (metis prod.collapse)
        from handler_keeps [OF held ran] err have "keeps h c tr3 (Holding t)" by blast
        from report_keeps [OF this fin, of "()"] obtain p4 where p4: "keeps h c tr4 p4" "fin = Inr () \<longrightarrow> p4 = Idle" by blast
        show ?thesis
        proof (cases fin)
          case (Inl e)
          with Cons.prems(2) b cl alive Inr ran err fin p4 show ?thesis by auto
        next
          case ok: (Inr v)
          have "Run_loop (noted h) c rs (w4, tr4) = (res, (w', tr'))" using Cons.prems(2) b cl alive Inr ran err fin ok by simp
          with Cons.IH ok p4 show ?thesis by auto
        qed
      next
        case False
        then have "tr' = tr3" using Cons.prems(2) b cl alive Inr ran by (auto split: option.splits)
        with handler_keeps [OF held ran] show ?thesis by blast
      qed
    qed
  qed
qed auto

end
