(* ===== verification/Api.thy ===== *)
theory Api
  imports Api_Model Lifecycle
begin

text \<open>
  The HTTP API: what each endpoint promises. The lemmas on the handlers hold for every store that keeps the
  contract (\<open>reliable_store\<close>); the properties state them for the memory store.
\<close>

section \<open>Authentication\<close>

lemma unescape_slash:
  "PathUnescape p = Inr u \<Longrightarrow> CHR ''/'' \<in> set p \<Longrightarrow> CHR ''/'' \<in> set u"
proof (induction p arbitrary: u rule: PathUnescape.induct)
  case (2 c cs)
  show ?case
  proof (cases "c = CHR ''%''")
    case True
    then obtain h l rest a b s where p: "cs = h # l # rest" "unhex h = Some a" "unhex l = Some b"
      "PathUnescape rest = Inr s" "u = char_of (16 * a + b) # s"
      using "2.prems"(1) by (auto split: list.splits option.splits sum.splits)
    then have "h \<noteq> CHR ''/''" "l \<noteq> CHR ''/''" using unhex_slash by auto
    then have "CHR ''/'' \<in> set rest" using "2.prems"(2) True p(1) by auto
    with "2.IH"(1) [OF True p(1) refl refl p(2,3,4)] p(5) show ?thesis by simp
  next
    case False
    then obtain s where s: "PathUnescape cs = Inr s" "u = c # s" using "2.prems"(1) by (auto split: sum.splits)
    show ?thesis
    proof (cases "c = CHR ''/''")
      case False
      with "2.prems"(2) \<open>c \<noteq> CHR ''%''\<close> have "CHR ''/'' \<in> set cs" by auto
      with "2.IH"(2) [OF \<open>c \<noteq> CHR ''%''\<close> s(1)] s(2) show ?thesis by simp
    qed (use s in simp)
  qed
qed simp

lemma route_of_segment:
  assumes "PathUnescape p = Inr u" and "CHR ''/'' \<notin> set u" and "u \<noteq> []"
  shows "mux_route (CHR ''/'' # p) = (if u = ''healthz'' then Healthz else if u = ''readyz'' then Readyz
     else mux_route (CHR ''/'' # p))"
proof -
  have "CHR ''/'' \<notin> set p" using unescape_slash [OF assms(1)] assms(2) by blast
  then have "Split (CHR ''/'') p = [p]" by (rule Split_no_sep)
  moreover have "p \<noteq> []" using assms(1,3) by auto
  ultimately show ?thesis using assms(1) by (simp add: mux_route_def path_unescape_def)
qed

text \<open>The two probes, and nothing else, are served without credentials.\<close>

definition is_probe :: "'b request \<Rightarrow> bool" where
  "is_probe r \<longleftrightarrow> URLPath r = ''/healthz'' \<or> URLPath r = ''/readyz''"

lemma probe_served:
  assumes "PathUnescape (EscapedPath r) = Inr (URLPath r)" and "EscapedPath r = CHR ''/'' # p" and "is_probe r"
  shows "\<exists>resp. serve_mux fuel ops rops dec clk env r s = Some (resp, s)
     \<and> (code resp = 301 \<or> resp = Server_healthz \<or> resp = Server_ready ops r s)"
proof -
  obtain u where u: "URLPath r = CHR ''/'' # u" "u = ''healthz'' \<or> u = ''readyz''" using assms(3) by (auto simp: is_probe_def)
  then have "PathUnescape p = Inr u" using assms(1,2) by (auto split: sum.splits)
  moreover have "CHR ''/'' \<notin> set u" "u \<noteq> []" using u(2) by auto
  ultimately have "mux_route (EscapedPath r) = Healthz \<or> mux_route (EscapedPath r) = Readyz"
    using route_of_segment [of p u] u(2) assms(2) by auto
  then show ?thesis by (auto simp: serve_mux_def Let_def)
qed

section \<open>The long poll\<close>

text \<open>The pause before the \<open>k\<close>-th further claim of a poll.\<close>

fun pause_at :: "nat \<Rightarrow> duration" where
  "pause_at 0 = claimRetryMin"
| "pause_at (Suc k) = next_interval (pause_at k)"

lemma pause_at_values:
  "pause_at 0 = 50000000" "pause_at (Suc 0) = 100000000" "pause_at 2 = 200000000" "pause_at 3 = 400000000"
  by (simp_all add: numeral_eq_Suc next_interval_def claimRetryMin_def claimRetryMax_def)

lemma pause_at_top: "pause_at (k + 4) = 500000000"
proof (induction k)
  case 0
  show ?case using pause_at_values(4) by (simp add: numeral_eq_Suc next_interval_def claimRetryMax_def)
next
  case (Suc k)
  then show ?case by (simp only: add_Suc pause_at.simps) (simp add: next_interval_def claimRetryMax_def)
qed

lemma pause_at_pos: "0 < pause_at k"
  by (induction k) (auto simp: next_interval_def claimRetryMin_def claimRetryMax_def)

text \<open>A timer fires no earlier than it was set for: between the readings after two successive claims at least the
  pause lies, or what was left until the deadline.\<close>

definition timers_keep :: "'s poll_env \<Rightarrow> gtime \<Rightarrow> bool" where
  "timers_keep env deadline \<longleftrightarrow>
     (\<forall>k. until_now env k + min (pause_at k) (deadline - until_now env k) \<le> until_now env (Suc k))"

text \<open>The claims still to be made after the \<open>k\<close>-th when \<open>left\<close> remains until the deadline.\<close>

definition claims_left :: "nat \<Rightarrow> int \<Rightarrow> nat" where
  "claims_left k left = (4 - k) + nat ((left + 499999999) div 500000000)"

lemma claims_left_step:
  assumes "0 < left" and "left' \<le> left - pause_at k"
  shows "claims_left (Suc k) left' < claims_left k left"
proof (cases "k < 4")
  case True
  have "left' \<le> left" using assms(2) pause_at_pos [of k] by linarith
  then have "nat ((left' + 499999999) div 500000000) \<le> nat ((left + 499999999) div 500000000)"
    by (intro nat_mono zdiv_mono1) auto
  with True show ?thesis unfolding claims_left_def by linarith
next
  case False
  then have "pause_at k = 500000000" using pause_at_top [of "k - 4"] by simp
  then have "(left' + 499999999) div 500000000 \<le> (left - 500000000 + 499999999) div 500000000"
    using assms(2) by (intro zdiv_mono1) auto
  also have "\<dots> = (left + 499999999) div 500000000 - 1" by simp
  finally have "nat ((left' + 499999999) div 500000000) < nat ((left + 499999999) div 500000000)" using assms(1) by linarith
  with False show ?thesis by (simp add: claims_left_def)
qed

text \<open>How a poll may end.\<close>

definition poll_end :: "'s store_ops \<Rightarrow> 's poll_env \<Rightarrow> string \<Rightarrow> gtime \<Rightarrow> response \<Rightarrow> 's scheduler \<Rightarrow> bool" where
  "poll_end ops env wid deadline resp s' \<longleftrightarrow>
     (\<exists>k s res. Scheduler_Claim ops wid (claim_clk env k) s = (res, s') \<and>
        (case res of
           Inr t \<Rightarrow> resp = writeJSON 200 (TaskBody t)
         | Inl e \<Rightarrow> if e \<noteq> ErrNoTask then resp = json_error 409 (error_text e)
                    else resp = WriteHeader 204 \<and> deadline \<le> until_now env k \<or> resp = WriteHeader 200 \<and> ctx_done env k))"

lemma sat64_le_0 [simp]: "sat64 x \<le> 0 \<longleftrightarrow> x \<le> 0"
  by (auto simp: sat64_def)

lemma poll_returns:
  assumes "timers_keep env deadline" and "claims_left k (deadline - until_now env k) < n"
    and "i = pause_at k \<or> deadline \<le> until_now env k" and "deadline - until_now env k < 2 ^ 63"
  shows "\<exists>resp s'. claim_poll n ops env wid deadline k i s = Some (resp, s') \<and> poll_end ops env wid deadline resp s'"
  using assms(2-4)
proof (induction n arbitrary: k i s)
  case (Suc n)
  let ?left = "deadline - until_now env k" and ?left' = "deadline - until_now env (Suc k)"
  obtain res s1 where c: "Scheduler_Claim ops wid (claim_clk env k) s = (res, s1)" by fastforce
  show ?case
  proof (cases "res = Inl ErrNoTask \<and> 0 < ?left \<and> \<not> ctx_done env k")
    case False
    then have "\<exists>resp. claim_poll (Suc n) ops env wid deadline k i s = Some (resp, s1) \<and> (case res of
           Inr t \<Rightarrow> resp = writeJSON 200 (TaskBody t)
         | Inl e \<Rightarrow> if e \<noteq> ErrNoTask then resp = json_error 409 (error_text e)
                    else resp = WriteHeader 204 \<and> deadline \<le> until_now env k \<or> resp = WriteHeader 200 \<and> ctx_done env k)"
      by (auto simp: c Let_def not_less split: sum.split)
    with c show ?thesis unfolding poll_end_def by blast
  next
    case True
    then have i: "i = pause_at k" using Suc.prems(2) by auto
    have sat: "sat64 ?left = ?left" using True Suc.prems(3) by (simp add: sat64_def)
    let ?i = "next_interval (if i > ?left then ?left else i)"
    have t: "until_now env k + min (pause_at k) ?left \<le> until_now env (Suc k)" using assms(1) unfolding timers_keep_def by blast
    have next': "claim_poll (Suc n) ops env wid deadline k i s = claim_poll n ops env wid deadline (Suc k) ?i (others env k s1)"
      using True sat by (simp add: c Let_def)
    have inv: "?i = pause_at (Suc k) \<or> deadline \<le> until_now env (Suc k)" using t i by (auto simp: min_def)
    have "claims_left (Suc k) ?left' < claims_left k ?left"
    proof (cases "pause_at k \<le> ?left")
      case True
      then have "?left' \<le> ?left - pause_at k" using t by simp
      with claims_left_step [of ?left ?left' k] \<open>res = Inl ErrNoTask \<and> _\<close> show ?thesis by simp
    next
      case False
      then have "?left' \<le> 0" using t by simp
      then have "claims_left (Suc k) ?left' = 4 - Suc k" by (simp add: claims_left_def)
      moreover have "0 < (?left + 499999999) div 500000000" using True by (simp add: pos_imp_zdiv_pos_iff)
      then have "claims_left k ?left \<ge> 4 - k + 1" unfolding claims_left_def by linarith
      ultimately show ?thesis by simp
    qed
    then have "claims_left (Suc k) ?left' < n" using Suc.prems(1) by simp
    moreover have "?left' < 2 ^ 63" using t True Suc.prems(3) pause_at_pos [of k] by (auto simp: min_def split: if_splits)
    ultimately show ?thesis using Suc.IH [OF _ inv] next' by simp
  qed
qed simp

section \<open>Submission\<close>





text \<open>A submission through the API, in one equation: the task that is submitted has an id, and otherwise the
  fields of the request.\<close>

lemma NewID_ne: "fst (NewID now g) \<noteq> []"
  by (simp add: NewID_def idFrom_def Let_def)

lemma post_unfold:
  assumes "decode_submit dec (Body r) = Inr q" and "length (idempotency_key r) \<le> 256"
  obtains t sc0 where "store sc0 = store (sched s)" and "maxPending sc0 = maxPending (sched s)" and "ID t \<noteq> []"
    and "t = (requested_task q (idempotency_key r) (clk 0))\<lparr>ID := ID t\<rparr>" and "rID q \<noteq> [] \<longrightarrow> ID t = rID q"
    and "Server_tasks_post ops dec clk r s =
      (let (err, sc) = Scheduler_Submit ops (later 2 clk) t sc0; s' = s\<lparr>sched := sc\<rparr> in
       case err of
         Some e \<Rightarrow> (submit_error ops (idempotency_key r) e sc, s')
       | None \<Rightarrow> (writeJSON 201 (TaskBody (case Scheduler_Get ops (ID t) sc of Inl _ \<Rightarrow> zero_task | Inr c \<Rightarrow> c)), s'))"
proof -
  let ?t0 = "requested_task q (idempotency_key r) (clk 0)"
  have id: "ID ?t0 = rID q" by (simp add: requested_task_def)
  show thesis
  proof (cases "rID q = []")
    case True
    obtain i g where n: "NewID (clk 1) (ids (sched s)) = (i, g)" by fastforce
    show thesis
      by (rule that [of "(sched s)\<lparr>ids := g\<rparr>" "?t0\<lparr>ID := i\<rparr>"])
        (use n NewID_ne [of "clk 1" "ids (sched s)"] True assms id in \<open>simp_all add: Server_tasks_post_def Let_def\<close>)
  next
    case False
    then show thesis
      by (intro that [of "sched s" ?t0]) (use assms id in \<open>simp_all add: Server_tasks_post_def Let_def\<close>)
  qed
qed

lemma requested_fields [simp]:
  "IdempotencyKey (requested_task q key now) = key" "Name (requested_task q key now) = rName q"
  "Status (requested_task q key now) = []" "Priority (requested_task q key now) = rPriority q"
  "DependsOn (requested_task q key now) = rDependsOn q" "Payload (requested_task q key now) = append_nil (rPayload q)"
  by (simp_all add: requested_task_def zero_task_def)

lemma submit_defaults_new:
  "Status t = [] \<Longrightarrow> Status (fst (submit_defaults clk g t)) = StatusPending"
  "ID t \<noteq> [] \<Longrightarrow> ID (fst (submit_defaults clk g t)) = ID t"
  by (simp_all add: submit_defaults_def NewID_def Let_def)

context reliable_store
begin

lemma post_ok:
  assumes "inv (store (sched s))" and "decode_submit dec (Body r) = Inr q" and "length (idempotency_key r) \<le> 256"
    and "Server_tasks_post ops dec clk r s = (resp, s')" and "code resp = 201"
  shows "\<exists>t. resp = writeJSON 201 (TaskBody t) \<and> inv (store (sched s')) \<and> look (store (sched s)) (ID t) = None
     \<and> look (store (sched s')) = (look (store (sched s)))(ID t \<mapsto> t) \<and> Status t = StatusPending \<and> Name t = rName q
     \<and> IdempotencyKey t = idempotency_key r \<and> Priority t = rPriority q \<and> (rID q \<noteq> [] \<longrightarrow> ID t = rID q)
     \<and> (idempotency_key r \<noteq> [] \<longrightarrow> (\<forall>u clk'. IdempotencyKey u = idempotency_key r \<longrightarrow>
          (\<exists>e. Scheduler_Submit ops clk' u (sched s') = (Some e, sched s') \<and> errors_Is e ErrDuplicateIdempotencyKey)
          \<and> Scheduler_FindByIdempotencyKey ops (idempotency_key r) (sched s') = Inr t))"
proof -
  obtain u sc0 where u: "store sc0 = store (sched s)" "ID u \<noteq> []"
    "u = (requested_task q (idempotency_key r) (clk 0))\<lparr>ID := ID u\<rparr>" "rID q \<noteq> [] \<longrightarrow> ID u = rID q"
    and post: "Server_tasks_post ops dec clk r s =
      (let (err, sc) = Scheduler_Submit ops (later 2 clk) u sc0; s' = s\<lparr>sched := sc\<rparr> in
       case err of
         Some e \<Rightarrow> (submit_error ops (idempotency_key r) e sc, s')
       | None \<Rightarrow> (writeJSON 201 (TaskBody (case Scheduler_Get ops (ID u) sc of Inl _ \<Rightarrow> zero_task | Inr c \<Rightarrow> c)), s'))"
    by (rule post_unfold [OF assms(2,3), where s = s and clk = clk and ops = ops]) blast
  have not201: "code (submit_error ops key e sc) \<noteq> 201" for key e sc
    by (auto simp: submit_error_def writeJSON_def json_error_def split: sum.split)
  obtain err sc where c: "Scheduler_Submit ops (later 2 clk) u sc0 = (err, sc)" by fastforce
  have "err = None" using assms(4,5) not201 unfolding post c by (auto simp: Let_def split: option.splits)
  with c have ok: "Scheduler_Submit ops (later 2 clk) u sc0 = (None, sc)" by simp
  obtain t g where d: "submit_defaults (later 2 clk) (ids sc0) u = (t, g)" by fastforce
  have inv: "inv (store sc0)" using assms(1) u(1) by simp
  note s = submit_ok [OF inv ok d]
  have f: "IdempotencyKey u = idempotency_key r" "Status u = []" "Name u = rName q" "Priority u = rPriority q"
    using u(3) by (metis requested_fields task.select_convs task.surjective task.update_convs(1))+
  have t: "ID t = ID u" "Status t = StatusPending" "Name t = rName q" "IdempotencyKey t = idempotency_key r" "Priority t = rPriority q"
    using f u(2) d submit_defaults_new [of u "later 2 clk" "ids sc0"] submit_defaults_fields [of "later 2 clk" "ids sc0" u] by auto
  have get: "Scheduler_Get ops (ID u) sc = Inr (clone t)"
    using get_iff [OF s(2)] s(1) t(1) by (simp add: Scheduler_Get_def)
  then have resp: "resp = writeJSON 201 (TaskBody (clone t))" "s' = s\<lparr>sched := sc\<rparr>" using assms(4) unfolding post ok by (auto simp: Let_def)
  have "Scheduler_FindByIdempotencyKey ops (idempotency_key r) sc = Inr (clone t)
      \<and> (\<exists>e. Scheduler_Submit ops clk' v sc = (Some e, sc) \<and> errors_Is e ErrDuplicateIdempotencyKey)"
    if "idempotency_key r \<noteq> []" "IdempotencyKey v = idempotency_key r" for v clk'
    using submit_twice(1) [OF inv ok _ _ d, of v] submit_twice(2) [OF inv ok _ _ d, of v clk'] that f(1) by simp
  with s(1-3) u t resp show ?thesis by (intro exI [of _ "clone t"]) simp
qed

end


section \<open>Bulk deletion\<close>

context reliable_store
begin

lemma bulk_purge_look:
  assumes "inv (store s)" and "bulk_loop ops True clk is' s = (items, s')"
  shows "inv (store s') \<and> map item_id items = is'
     \<and> look (store s') = (\<lambda>i. case look (store s) i of None \<Rightarrow> None
          | Some t \<Rightarrow> if i \<in> set is' \<and> Status t \<noteq> StatusRunning then None else Some t)
     \<and> (\<forall>it \<in> set items. item_ok it \<longrightarrow> (\<exists>t. look (store s) (item_id it) = Some t \<and> Status t \<noteq> StatusRunning))"
  using assms
proof (induction is' arbitrary: s clk items)
  case Nil
  then show ?case by (auto split: option.split)
next
  case (Cons i is')
  obtain err s1 where p: "Scheduler_Purge ops i s = (err, s1)" by fastforce
  obtain its where b: "bulk_loop ops True (later 1 clk) is' s1 = (its, s')"
    and items: "items = \<lparr>item_id = i, item_action = ''purged'', item_ok = (err = None), item_error = map_option error_text err\<rparr> # its"
    using Cons.prems(2) p by (auto simp: Let_def split: prod.splits)
  show ?case
  proof (cases "\<exists>t. look (store s) i = Some t \<and> Status t \<noteq> StatusRunning")
    case True
    then obtain t where t: "look (store s) i = Some t" "Status t \<noteq> StatusRunning" by blast
    from purge_ok [OF Cons.prems(1) t] p have e: "err = None" "inv (store s1)" "look (store s1) = (look (store s))(i := None)" by auto
    from Cons.IH [OF e(2) b] items t e show ?thesis by (auto split: option.splits if_splits)
  next
    case False
    with purge_refused [OF Cons.prems(1), of i] p have e: "err \<noteq> None" "s1 = s" by auto
    from Cons.IH [of s, OF Cons.prems(1) b [unfolded e(2)]] items False e show ?thesis
      by (auto intro!: ext split: option.splits if_splits)
  qed
qed

lemma canceled_terminal [simp]: "IsTerminal (canceled_record x t)"
  by (simp add: IsTerminal_def canceled_record_def)

lemma bulk_cancel_look:
  assumes "inv (store s)" and "bulk_loop ops False clk is' s = (items, s')"
  shows "inv (store s') \<and> map item_id items = is' \<and> map item_ok items = map (\<lambda>i. look (store s) i \<noteq> None) is'
     \<and> (\<forall>i. look (store s') i = look (store s) i
          \<or> (i \<in> set is' \<and> (\<exists>t x. look (store s) i = Some t \<and> \<not> IsTerminal t \<and> look (store s') i = Some (canceled_record x t))))
     \<and> (\<forall>i \<in> set is'. \<forall>t. look (store s') i = Some t \<longrightarrow> IsTerminal t)"
  using assms
proof (induction is' arbitrary: s clk items)
  case (Cons i is')
  obtain err s1 where p: "Scheduler_Cancel ops i (clk 0) s = (err, s1)" by fastforce
  obtain its where b: "bulk_loop ops False (later 1 clk) is' s1 = (its, s')"
    and items: "items = \<lparr>item_id = i, item_action = ''canceled'', item_ok = (err = None), item_error = map_option error_text err\<rparr> # its"
    using Cons.prems(2) p by (auto simp: Let_def split: prod.splits)
  show ?case
  proof (cases "\<exists>t. look (store s) i = Some t \<and> \<not> IsTerminal t")
    case True
    then obtain t where t: "look (store s) i = Some t" "\<not> IsTerminal t" by blast
    from cancel_ok [OF Cons.prems(1) t, of "clk 0"] p
    have e: "err = None" "inv (store s1)" "look (store s1) = (look (store s))(i \<mapsto> canceled_record (clk 0) t)" by auto
    note ih = Cons.IH [OF e(2) b]
    have mid: "look (store s') i = Some (canceled_record (clk 0) t)" using ih e(3) by (metis canceled_terminal fun_upd_same option.inject)
    have "map item_ok its = map (\<lambda>i. look (store s) i \<noteq> None) is'" using ih e(3) t(1) by auto
    moreover have "look (store s') j = look (store s) j
        \<or> (j \<in> set (i # is') \<and> (\<exists>t x. look (store s) j = Some t \<and> \<not> IsTerminal t \<and> look (store s') j = Some (canceled_record x t)))" for j
    proof (cases "j = i")
      case False
      then have "look (store s1) j = look (store s) j" by (simp add: e(3))
      with ih show ?thesis by (metis list.set_intros(2))
    qed (use mid t in auto)
    moreover have "\<forall>j \<in> set (i # is'). \<forall>t. look (store s') j = Some t \<longrightarrow> IsTerminal t" using ih mid by auto
    ultimately show ?thesis using ih items e(1) t by auto
  next
    case False
    with cancel_noop [OF Cons.prems(1), of i "clk 0"] p
    have e: "err = None \<longleftrightarrow> look (store s) i \<noteq> None" "s1 = s" by (auto split: if_splits)
    note ih = Cons.IH [of s, OF Cons.prems(1) b [unfolded e(2)]]
    have "look (store s') i = look (store s) i" using ih False by metis
    with ih items False e show ?thesis by auto
  qed
qed simp

end

section \<open>Properties\<close>

text \<open>C24: a server with a token answers a request with wrong credentials without touching anything: it is refused with
  status 401, unless it is one of the two probes, whose answers carry no task data. For the probes the routing,
  which reads the escaped path, agrees with the check, which reads the decoded one.\<close>

theorem unauthenticated_no_effect:
  assumes "token s \<noteq> []" and "provided_token r \<noteq> token s"
    and "PathUnescape (EscapedPath r) = Inr (URLPath r)" and "EscapedPath r = CHR ''/'' # p"
  shows "\<exists>resp. Server_Handler fuel ops rops dec clk env r s = Some (resp, s)
     \<and> (if URLPath r = ''/healthz'' \<or> URLPath r = ''/readyz''
        then code resp = 301 \<or> resp = Server_healthz \<or> resp = Server_ready ops r s
        else code resp = 401)"
proof (cases "is_probe r")
  case True
  from probe_served [OF assms(3,4) True, of fuel ops rops dec clk env s] True assms(1) show ?thesis
    by (auto simp: Server_Handler_def is_probe_def)
next
  case False
  with assms(1,2) show ?thesis by (simp add: Server_Handler_def is_probe_def)
qed

definition demo_request :: "string \<Rightarrow> string \<Rightarrow> 'b \<Rightarrow> 'b request" where
  "demo_request meth path b = \<lparr>Method = meth, URLPath = path, EscapedPath = path, Query = (\<lambda>_. []), Header = (\<lambda>_. []), Body = b\<rparr>"

text \<open>A request body that is already decoded, and quiet surroundings, for the witnesses.\<close>

definition demo_decoders :: "submit_request decoders" where
  "demo_decoders = \<lparr>decode_id = (\<lambda>q. Inr (rID q)), decode_ids = (\<lambda>q. Inr (elems (rDependsOn q))), decode_submit = Inr,
     decode_token = (\<lambda>q. Inr (rName q)), decode_complete = (\<lambda>_. Inl (ErrNew ''EOF'')), ParseDuration = (\<lambda>_. Inr 1000000000)\<rparr>"

definition demo_env :: "memory_store poll_env" where
  "demo_env = \<lparr>claim_clk = (\<lambda>_ _. 7), until_now = (\<lambda>k. 7 + 500000000 * int k), ctx_done = (\<lambda>_. False), others = (\<lambda>_ s. s)\<rparr>"

definition memory_registry_ops :: "nodes registry_ops" where
  "memory_registry_ops = \<lparr>reg_Leader = MemoryRegistry_Leader, reg_List = MemoryRegistry_List\<rparr>"

definition demo_submit :: "string \<Rightarrow> submit_request" where
  "demo_submit i = \<lparr>rID = i, rName = ''echo'', rPriority = 1, rDependsOn = Some [''p''], rPayload = None, rRunAt = None, rDelay = 0,
     rTimeout = 0, rSchedule = 0, rRetry = \<lparr>MaxAttempts = 2, Backoff = 0\<rparr>\<rparr>"

theorem unauthenticated_no_effect_witness:
  "\<exists>resp. Server_Handler 1 memory_ops memory_registry_ops demo_decoders (\<lambda>_. 7) demo_env
       (demo_request ''GET'' ''/tasks'' (demo_submit [])) (NewWithToken leased ''secret'') = Some (resp, NewWithToken leased ''secret'')
     \<and> code resp = 401"
  using unauthenticated_no_effect [of "NewWithToken leased ''secret''" "demo_request ''GET'' ''/tasks'' (demo_submit [])" "''tasks''"
      1 memory_ops memory_registry_ops demo_decoders "\<lambda>_. 7" demo_env]
  by (simp add: NewWithToken_def demo_request_def provided_token_def TrimPrefix_def)

text \<open>C25: a long poll comes to an end: whatever the other requests do meanwhile, it makes at most sixty-five claims
  and then answers. It hands out the task of its last claim, reports that claim's error, reports that there is
  no task only once the deadline has passed, or stops because the client has gone.\<close>

theorem poll_ends:
  assumes "Method r = ''POST''" and "timers_keep env (poll_deadline dec (Query r ''wait'') now)" and "now \<le> until_now env 0"
    and "PathUnescape (TrimSuffix (TrimPrefix (EscapedPath r) ''/workers/'') ''/claim'') = Inr wid" and "wid \<noteq> []"
  shows "\<exists>resp sc. Server_workerClaim 65 ops dec now env r s = Some (resp, s\<lparr>sched := sc\<rparr>)
     \<and> poll_end ops env wid (poll_deadline dec (Query r ''wait'') now) resp sc"
proof -
  let ?d = "poll_deadline dec (Query r ''wait'') now"
  have d: "?d - until_now env 0 \<le> 30000000000" using assms(3) by (auto simp: poll_deadline_def split: sum.split)
  then have "claims_left 0 (?d - until_now env 0) < 65"
    using zdiv_mono1 [of "?d - until_now env 0 + 499999999" "30499999999" 500000000] unfolding claims_left_def by simp
  with d have "\<exists>resp sc. claim_poll 65 ops env wid ?d 0 claimRetryMin (sched s) = Some (resp, sc) \<and> poll_end ops env wid ?d resp sc"
    by (intro poll_returns [OF assms(2)]) auto
  then show ?thesis using assms(1,4,5) by (auto simp: Server_workerClaim_def)
qed

theorem poll_ends_witness:
  "\<exists>resp sc. Server_workerClaim 65 memory_ops demo_decoders 7 demo_env
       ((demo_request ''POST'' ''/workers/w/claim'' (demo_submit []))\<lparr>Query := (\<lambda>_. ''1s'')\<rparr>) (Server_New leased :: (memory_store, nodes) server)
     = Some (resp, (Server_New leased)\<lparr>sched := sc\<rparr>) \<and> poll_end memory_ops demo_env ''w'' 1000000007 resp sc"
proof -
  let ?r = "(demo_request ''POST'' ''/workers/w/claim'' (demo_submit []))\<lparr>Query := (\<lambda>_. ''1s'')\<rparr>"
  have d: "poll_deadline demo_decoders (Query ?r ''wait'') 7 = 1000000007" by (simp add: poll_deadline_def demo_decoders_def)
  have "pause_at k \<le> 500000000" for k
    by (induction k) (auto simp: next_interval_def claimRetryMin_def claimRetryMax_def)
  then have t: "timers_keep demo_env 1000000007"
    by (auto simp: timers_keep_def demo_env_def distrib_left intro: min.coboundedI1)
  have p: "PathUnescape (TrimSuffix (TrimPrefix (EscapedPath ?r) ''/workers/'') ''/claim'') = Inr ''w''" by code_simp
  have "Method ?r = ''POST''" "(7 :: gtime) \<le> until_now demo_env 0" by (simp_all add: demo_request_def demo_env_def)
  with poll_ends [of ?r demo_env demo_decoders 7 "''w''" memory_ops "Server_New leased :: (memory_store, nodes) server"] t p d
  show ?thesis by simp
qed



text \<open>\<^verbatim>\<open>POST /tasks\<close> can be retried. After a task was created under an idempotency key, any further request with that key, whatever
  else it asks for, is answered with status 200 and the task the first one created, and changes no task.\<close>

theorem post_retry:
  assumes "mem_inv (store (sched s))" and "Method r = ''POST''" and "decode_submit dec (Body r) = Inr q"
    and "length (idempotency_key r) \<le> 256" and "idempotency_key r \<noteq> []"
    and "Server_tasks memory_ops dec clk r s = (writeJSON 201 (TaskBody t), s1)"
    and "Method r' = ''POST''" and "decode_submit dec (Body r') = Inr q'" and "idempotency_key r' = idempotency_key r"
  shows "\<exists>s2. Server_tasks memory_ops dec clk' r' s1 = (writeJSON 200 (TaskBody t), s2) \<and> store (sched s2) = store (sched s1)"
proof -
  have p1: "Server_tasks_post memory_ops dec clk r s = (writeJSON 201 (TaskBody t), s1)" using assms(2,6) by (simp add: Server_tasks_def)
  have again: "(\<exists>e. Scheduler_Submit memory_ops c u (sched s1) = (Some e, sched s1) \<and> errors_Is e ErrDuplicateIdempotencyKey)
      \<and> Scheduler_FindByIdempotencyKey memory_ops (idempotency_key r) (sched s1) = Inr t" if "IdempotencyKey u = idempotency_key r" for u c
    using mem.post_ok [OF assms(1,3,4) p1] that assms(5) by (auto simp: writeJSON_def)
  have len: "length (idempotency_key r') \<le> 256" using assms(4,9) by simp
  obtain u sc0 where u: "store sc0 = store (sched s1)" "u = (requested_task q' (idempotency_key r') (clk' 0))\<lparr>ID := ID u\<rparr>"
    and eq: "Server_tasks_post memory_ops dec clk' r' s1 =
      (let (err, sc) = Scheduler_Submit memory_ops (later 2 clk') u sc0; s' = s1\<lparr>sched := sc\<rparr> in
       case err of
         Some e \<Rightarrow> (submit_error memory_ops (idempotency_key r') e sc, s')
       | None \<Rightarrow> (writeJSON 201 (TaskBody (case Scheduler_Get memory_ops (ID u) sc of Inl _ \<Rightarrow> zero_task | Inr c \<Rightarrow> c)), s'))"
    by (rule post_unfold [OF assms(8) len, where s = s1 and clk = clk' and ops = memory_ops]) blast
  have key: "IdempotencyKey u = idempotency_key r"
    using u(2) assms(9) by (metis requested_fields(1) task.select_convs task.surjective task.update_convs(1))
  have find: "Scheduler_FindByIdempotencyKey memory_ops k sc0 = Scheduler_FindByIdempotencyKey memory_ops k (sched s1)" for k
    by (simp add: Scheduler_FindByIdempotencyKey_def u(1))
  then have "\<exists>e. Scheduler_Submit memory_ops (later 2 clk') u sc0 = (Some e, sc0) \<and> errors_Is e ErrDuplicateIdempotencyKey"
    using again [OF key] assms(5) key by (auto simp: Scheduler_Submit_def)
  then obtain e where "Scheduler_Submit memory_ops (later 2 clk') u sc0 = (Some e, sc0)" "errors_Is e ErrDuplicateIdempotencyKey" by blast
  then have "Server_tasks_post memory_ops dec clk' r' s1 = (writeJSON 200 (TaskBody t), s1\<lparr>sched := sc0\<rparr>)"
    using again [OF key] find assms(5,9) by (simp add: eq submit_error_def Let_def)
  with assms(7) u(1) show ?thesis by (simp add: Server_tasks_def)
qed

definition keyed_request :: "submit_request request" where
  "keyed_request = (demo_request ''POST'' ''/tasks'' (demo_submit ''n''))\<lparr>Header := (\<lambda>h. if h = ''Idempotency-Key'' then '' k '' else [])\<rparr>"

theorem post_retry_witness:
  "\<exists>t s1 s2. Server_tasks memory_ops demo_decoders (\<lambda>_. 7) keyed_request (Server_New leased :: (memory_store, nodes) server)
       = (writeJSON 201 (TaskBody t), s1)
     \<and> Server_tasks memory_ops demo_decoders (\<lambda>_. 9) keyed_request s1 = (writeJSON 200 (TaskBody t), s2)"
proof -
  let ?s = "Server_New leased :: (memory_store, nodes) server"
  let ?p = "Server_tasks memory_ops demo_decoders (\<lambda>_. 7) keyed_request ?s"
  have k: "idempotency_key keyed_request = ''k''" by code_simp
  have inv: "mem_inv (store (sched ?s))" by (simp add: Server_New_def)
  have r: "Method keyed_request = ''POST''" "decode_submit demo_decoders (Body keyed_request) = Inr (demo_submit ''n'')"
    by (simp_all add: keyed_request_def demo_request_def demo_decoders_def)
  have "code (fst ?p) = 201" by code_simp
  moreover have "Server_tasks_post memory_ops demo_decoders (\<lambda>_. 7) keyed_request ?s = ?p" using r by (simp add: Server_tasks_def)
  ultimately obtain t where t: "?p = (writeJSON 201 (TaskBody t), snd ?p)"
    using mem.post_ok [OF inv r(2), of "\<lambda>_. 7" "fst ?p" "snd ?p"] by (auto simp: k prod_eq_iff)
  from post_retry [OF inv r(1,2) _ _ t r(1,2), of "\<lambda>_. 9"] t k show ?thesis by auto
qed

text \<open>\<^verbatim>\<open>GET /tasks\<close> returns stored tasks that match the filters, each once: all of them without a limit, and otherwise as many
  as there are up to the limit. An unknown status or a malformed limit is refused.\<close>

theorem list_page:
  assumes "mem_inv (store (sched s))"
  shows "if (Query r ''status'' \<noteq> [] \<and> \<not> validStatus (Query r ''status'')) \<or> parse_limit (Query r ''limit'') = None
     then code (Server_tasks_get memory_ops r s) = 400
     else \<exists>xs limit. parse_limit (Query r ''limit'') = Some limit \<and> Server_tasks_get memory_ops r s = writeJSON 200 (TasksBody xs)
       \<and> distinct (map ID xs)
       \<and> (\<forall>t \<in> set xs. mem_look (store (sched s)) (ID t) = Some t \<and> list_filter (Query r ''status'') (Query r ''name'') t)
       \<and> (let n = card {i. \<exists>t. mem_look (store (sched s)) i = Some t \<and> list_filter (Query r ''status'') (Query r ''name'') t} in
          length xs = (if limit > 0 then min (nat limit) n else n))"
proof -
  let ?P = "list_filter (Query r ''status'') (Query r ''name'')" and ?m = "mem_look (store (sched s))"
  obtain xs where xs: "List memory_ops (store (sched s)) = Inr xs" using mem.list_total [OF assms] by blast
  let ?f = "filter ?P xs"
  have d: "distinct (map ID ?f)" using mem.list_distinct [OF assms xs] by (rule distinct_map_filter)
  have mem: "t \<in> set ?f \<longleftrightarrow> ?m (ID t) = Some t \<and> ?P t" for t using mem.in_list_iff [OF assms xs, of t] by auto
  have "ID ` set ?f = {i. \<exists>t. ?m i = Some t \<and> ?P t}"
  proof (intro equalityI subsetI)
    fix i assume "i \<in> {i. \<exists>t. ?m i = Some t \<and> ?P t}"
    then obtain t where "?m i = Some t" "?P t" by blast
    with mem.look_id [OF assms, of i t] mem [of t] show "i \<in> ID ` set ?f" by blast
  qed (use mem in auto)
  then have n: "card {i. \<exists>t. ?m i = Some t \<and> ?P t} = length ?f" using distinct_card [OF d] by (simp only: set_map length_map)
  have page: "distinct (map ID (take k ?f)) \<and> (\<forall>t \<in> set (take k ?f). ?m (ID t) = Some t \<and> ?P t)" for k
  proof
    show "distinct (map ID (take k ?f))" using d by (simp add: take_map [symmetric])
    show "\<forall>t \<in> set (take k ?f). ?m (ID t) = Some t \<and> ?P t" using mem in_set_takeD by fast
  qed
  show ?thesis
  proof (cases "(Query r ''status'' \<noteq> [] \<and> \<not> validStatus (Query r ''status'')) \<or> parse_limit (Query r ''limit'') = None")
    case True
    then show ?thesis unfolding Server_tasks_get_def Scheduler_List_def xs by (auto simp: json_error_def writeJSON_def Let_def)
  next
    case False
    then obtain limit where l: "parse_limit (Query r ''limit'') = Some limit" by auto
    let ?k = "if limit > 0 then nat limit else length ?f"
    have "Server_tasks_get memory_ops r s = writeJSON 200 (TasksBody (take ?k ?f))"
      using False l unfolding Server_tasks_get_def Scheduler_List_def xs by (auto simp: Let_def)
    moreover have "length (take ?k ?f) = (if limit > 0 then min (nat limit) (length ?f) else length ?f)" by (simp add: min.commute)
    ultimately show ?thesis
      unfolding if_not_P [OF False] Let_def n using l page [of ?k] by blast
  qed
qed

theorem list_page_witness:
  "\<exists>xs. Server_tasks_get memory_ops ((demo_request ''GET'' ''/tasks'' ())\<lparr>Query := (\<lambda>k. if k = ''limit'' then ''1'' else [])\<rparr>)
     (Server_New leased :: (memory_store, nodes) server) = writeJSON 200 (TasksBody xs) \<and> distinct (map ID xs)"
proof -
  let ?r = "(demo_request ''GET'' ''/tasks'' ())\<lparr>Query := (\<lambda>k. if k = ''limit'' then ''1'' else [])\<rparr>"
  have inv: "mem_inv (store (sched (Server_New leased :: (memory_store, nodes) server)))" by (simp add: Server_New_def)
  have "parse_limit ''1'' = Some 1" by code_simp
  then show ?thesis using list_page [OF inv, of ?r] by auto
qed

text \<open>C26: \<^verbatim>\<open>DELETE /tasks\<close> answers with one item per id, in order. With \<^verbatim>\<open>purge=true\<close> exactly the named tasks that are not running are
  gone; without it, none is gone and every named task is in a terminal state afterwards.\<close>

theorem bulk_delete:
  assumes "mem_inv (store (sched s))" and "decode_ids dec (Body r) = Inr is'" and "is' \<noteq> []" and "Method r = ''DELETE''"
    and "Server_tasks memory_ops dec clk r s = (resp, s')"
  defines "m \<equiv> mem_look (store (sched s))" and "m' \<equiv> mem_look (store (sched s'))"
  shows "\<exists>items. resp = writeJSON 200 (ItemsBody items) \<and> map item_id items = is' \<and> mem_inv (store (sched s'))
     \<and> (if Query r ''purge'' = ''true''
        then \<forall>i. m' i = (case m i of None \<Rightarrow> None | Some t \<Rightarrow> if i \<in> set is' \<and> Status t \<noteq> StatusRunning then None else Some t)
        else map item_ok items = map (\<lambda>i. m i \<noteq> None) is' \<and> dom m' = dom m
          \<and> (\<forall>i. m' i \<noteq> m i \<longrightarrow> (\<exists>t x. i \<in> set is' \<and> m i = Some t \<and> \<not> IsTerminal t \<and> m' i = Some (canceled_record x t)))
          \<and> (\<forall>i \<in> set is'. \<forall>t. m' i = Some t \<longrightarrow> IsTerminal t))"
proof -
  obtain items sc where b: "bulk_loop memory_ops (Query r ''purge'' = ''true'') clk is' (sched s) = (items, sc)" by fastforce
  then have r: "resp = writeJSON 200 (ItemsBody items)" "s' = s\<lparr>sched := sc\<rparr>"
    using assms(2-5) by (auto simp: Server_tasks_def Server_tasks_delete_def split: list.splits)
  show ?thesis
  proof (cases "Query r ''purge'' = ''true''")
    case True
    with mem.bulk_purge_look [OF assms(1), of clk is' items sc] b r show ?thesis
      by (intro exI [of _ items]) (simp add: m_def m'_def)
  next
    case False
    then have "bulk_loop memory_ops False clk is' (sched s) = (items, sc)" using b by simp
    from mem.bulk_cancel_look [OF assms(1) this]
    have c: "mem_inv (store sc)" "map item_id items = is'" "map item_ok items = map (\<lambda>i. m i \<noteq> None) is'"
      "\<And>i. m' i = m i \<or> (i \<in> set is' \<and> (\<exists>t x. m i = Some t \<and> \<not> IsTerminal t \<and> m' i = Some (canceled_record x t)))"
      "\<forall>i \<in> set is'. \<forall>t. m' i = Some t \<longrightarrow> IsTerminal t"
      by (auto simp: m_def m'_def r(2))
    have "(m' i = None) = (m i = None)" for i using c(4) [of i] by auto
    then have "dom m' = dom m" by (simp add: dom_def)
    moreover have "\<forall>i. m' i \<noteq> m i \<longrightarrow> (\<exists>t x. i \<in> set is' \<and> m i = Some t \<and> \<not> IsTerminal t \<and> m' i = Some (canceled_record x t))"
      using c(4) by blast
    ultimately show ?thesis unfolding if_not_P [OF False] using c r by (intro exI [of _ items]) simp
  qed
qed

theorem bulk_delete_witness:
  "\<exists>items s'. Server_tasks memory_ops demo_decoders (\<lambda>_. 7) (demo_request ''DELETE'' ''/tasks'' (demo_submit [])) (Server_New leased :: (memory_store, nodes) server)
     = (writeJSON 200 (ItemsBody items), s') \<and> map item_id items = [''p'']"
proof -
  let ?r = "demo_request ''DELETE'' ''/tasks'' (demo_submit [])" and ?s = "Server_New leased :: (memory_store, nodes) server"
  obtain resp s' where p: "Server_tasks memory_ops demo_decoders (\<lambda>_. 7) ?r ?s = (resp, s')" by fastforce
  have "mem_inv (store (sched ?s))" "decode_ids demo_decoders (Body ?r) = Inr [''p'']" "Method ?r = ''DELETE''"
    by (simp_all add: Server_New_def demo_decoders_def demo_request_def demo_submit_def)
  from bulk_delete [OF this(1,2) _ this(3) p] p show ?thesis by auto
qed

end
