(* ===== verification/Worker_Protocol.thy ===== *)
theory Worker_Protocol
  imports Worker_Network Worker_Loop Api
begin

text \<open>
  What the worker client promises, alone and together with the API server: its calls reach the scheduler with the
  ids and tokens they were made with, and its loop keeps to the protocol of leases.
\<close>

section \<open>A call over the network\<close>


text \<open>The request that arrives next is delivered, and so is its reply; the server accepts the token of the client.\<close>

definition delivered :: "client \<Rightarrow> ('s, 'r) net \<Rightarrow> bool" where
  "delivered c n \<longleftrightarrow> net_err n (arrived n) = None \<and> lost n (arrived n) = None
     \<and> (token (meanwhile n (arrived n) (srv n)) = [] \<or> token (meanwhile n (arrived n) (srv n)) = APIToken c)"

text \<open>The server when the next request arrives, and the world after a request that leaves the server as \<open>s\<close>.\<close>

definition server_now :: "('s, 'r) net \<Rightarrow> ('s, 'r) server" where
  "server_now n = meanwhile n (arrived n) (srv n)"

definition after :: "('s, 'r) server \<Rightarrow> ('s, 'r) net \<Rightarrow> ('s, 'r) net" where
  "after s n = n\<lparr>arrived := Suc (arrived n), srv := s\<rparr>"

lemma Do_delivered:
  assumes "delivered c n"
    and "Server_Handler 65 ops rops dec (net_clk n (arrived n)) (net_env n (arrived n)) (receive base q) (server_now n) = Some (resp, s')"
    and "code resp \<noteq> 301"
  shows "Do_following 10 ops rops dec none base q n = (Inr resp, after s' n)"
  using assms by (simp add: round_trip_def delivered_def server_now_def after_def Let_def)

lemma Handler_accepts:
  assumes "delivered c n" and "Header r ''X-API-Key'' = []" and "Header r ''Authorization'' = bearer c ''Authorization''"
  shows "Server_Handler 65 ops rops dec clk env r (server_now n) = serve_mux 65 ops rops dec clk env r (server_now n)"
proof (cases "token (server_now n) = []")
  case False
  then have "token (server_now n) = APIToken c" "APIToken c \<noteq> []" using assms(1) by (auto simp: delivered_def server_now_def)
  then have "provided_token r = token (server_now n)" using assms(2,3) TrimPrefix_append [of "''Bearer ''" "APIToken c"]
    by (simp add: provided_token_def bearer_def)
  then show ?thesis by (simp add: Server_Handler_def)
qed (simp add: Server_Handler_def)

lemma bearer_key [simp]: "bearer c ''X-API-Key'' = []"
  by (simp add: bearer_def)



lemma route_workers:
  assumes "EscapedPath r = ''/workers/'' @ Join ps (CHR ''/'')" and "ps \<noteq> []" and "\<forall>p \<in> set ps. plain_segment p"
  shows "serve_mux fuel ops rops dec clk env r s = Server_workerHeartbeat fuel ops dec clk env r s"
proof -
  obtain q qs where ps: "ps = q # qs" using assms(2) by (cases ps) auto
  have j: "''/workers/'' @ Join ps (CHR ''/'') = CHR ''/'' # Join (''workers'' # ps) (CHR ''/'')" by (simp add: ps)
  have "cleanPath (''/workers/'' @ Join ps (CHR ''/'')) = ''/workers/'' @ Join ps (CHR ''/'')"
    unfolding j by (rule cleanPath_plain) (use assms(3) in \<open>auto simp: plain_segment_def\<close>)
  moreover have "Split (CHR ''/'') (tl (''/workers/'' @ Join ps (CHR ''/''))) = ''workers'' # ps"
    unfolding j using assms(3) Split_Join [of "''workers'' # ps" "CHR ''/''"] by (simp add: plain_segment_def)
  then have "mux_route (''/workers/'' @ Join ps (CHR ''/'')) = WorkerByID" by (simp add: mux_route_def path_unescape_def ps)
  ultimately show ?thesis using assms(1) by (simp add: serve_mux_def)
qed

section \<open>The calls of the client\<close>

lemma receive_query:
  assumes "CHR ''?'' \<notin> set p"
  shows "receive base \<lparr>wMethod = m, URL = base @ p @ CHR ''?'' # raw, wHeader = hd', wBody = b\<rparr>
     = \<lparr>Method = m, URLPath = path_unescape p, EscapedPath = p, Query = query_get (Split (CHR ''&'') raw), Header = hd', Body = b\<rparr>"
  using cut_at [OF assms, of raw] by (simp add: receive_def)

lemma receive_plain:
  assumes "CHR ''?'' \<notin> set p"
  shows "receive base \<lparr>wMethod = m, URL = base @ p, wHeader = hd', wBody = b\<rparr>
     = \<lparr>Method = m, URLPath = path_unescape p, EscapedPath = p, Query = query_get [[]], Header = hd', Body = b\<rparr>"
  using cut_none [OF assms] by (simp add: receive_def)

lemma no_query_PathEscape: "CHR ''?'' \<notin> set (PathEscape i)"
  using PathEscape_plain by blast

text \<open>An id that a path can carry: the server cleans dots away.\<close>

definition addressable :: "string \<Rightarrow> bool" where
  "addressable i \<longleftrightarrow> i \<noteq> [] \<and> i \<noteq> ''.'' \<and> i \<noteq> ''..''"








definition wait_field :: "duration \<Rightarrow> string" where
  "wait_field wait = (if wait > 0 then Duration_String wait else [])"

lemma receive_claim:
  "\<exists>q. receive base \<lparr>wMethod = m, URL = base @ claim_path c wait, wHeader = hd', wBody = b\<rparr>
     = \<lparr>Method = m, URLPath = path_unescape (''/workers/'' @ PathEscape (cWorkerID c) @ ''/claim''),
        EscapedPath = ''/workers/'' @ PathEscape (cWorkerID c) @ ''/claim'', Query = q, Header = hd', Body = b\<rparr> \<and> q ''wait'' = wait_field wait"
proof -
  let ?p = "''/workers/'' @ PathEscape (cWorkerID c) @ ''/claim''"
  have p: "CHR ''?'' \<notin> set ?p" using no_query_PathEscape [of "cWorkerID c"] by simp
  show ?thesis
  proof (cases "wait > 0")
    case True
    have path: "claim_path c wait = ?p @ CHR ''?'' # ''wait='' @ Duration_String wait" using True by (simp add: claim_path_def)
    have "query_get (Split (CHR ''&'') (''wait='' @ Duration_String wait)) ''wait'' = Duration_String wait"
      using query_one_setting [of "''wait''" "Duration_String wait"] QueryUnescape_plain [OF unescaped_Duration] unescaped_Duration [of wait]
      by (simp add: unescaped_def list_all_iff)
    then have "query_get (Split (CHR ''&'') (''wait='' @ Duration_String wait)) ''wait'' = wait_field wait"
      using True by (simp only: wait_field_def if_True)
    moreover have "receive base \<lparr>wMethod = m, URL = base @ claim_path c wait, wHeader = hd', wBody = b\<rparr>
      = \<lparr>Method = m, URLPath = path_unescape ?p, EscapedPath = ?p, Query = query_get (Split (CHR ''&'') (''wait='' @ Duration_String wait)),
         Header = hd', Body = b\<rparr>" unfolding path by (rule receive_query [OF p])
    ultimately show ?thesis by blast
  next
    case False
    then have path: "claim_path c wait = ?p" by (simp add: claim_path_def)
    from False have "query_get [[]] ''wait'' = wait_field wait" by (simp add: wait_field_def)
    moreover have "receive base \<lparr>wMethod = m, URL = base @ claim_path c wait, wHeader = hd', wBody = b\<rparr>
      = \<lparr>Method = m, URLPath = path_unescape ?p, EscapedPath = ?p, Query = query_get [[]], Header = hd', Body = b\<rparr>"
      unfolding path by (rule receive_plain [OF p])
    ultimately show ?thesis by blast
  qed
qed

lemma claim_served:
  assumes "delivered c n" and "addressable (cWorkerID c)"
    and "claim_poll 65 ops (net_env n (arrived n)) (cWorkerID c) (poll_deadline dec (wait_field wait) (net_clk n (arrived n) 0)) 0 claimRetryMin (sched (server_now n))
       = Some (resp, sc)" and "code resp \<noteq> 301"
  shows "Client_ClaimWait (server_http ops rops dec none enc txt untask c) c wait n
     = (if code resp = 204 then Inl ErrNoTask else if code resp \<noteq> 200 then Inl (ErrNew (txt (rbody resp))) else untask (rbody resp),
        after ((server_now n)\<lparr>sched := sc\<rparr>) n)"
proof -
  let ?w = "PathEscape (cWorkerID c)"
  let ?p = "''/workers/'' @ ?w @ ''/claim''"
  obtain q where r: "receive (trim_slashes (BaseURL c)) \<lparr>wMethod = ''POST'', URL = trim_slashes (BaseURL c) @ claim_path c wait, wHeader = bearer c, wBody = none\<rparr>
     = \<lparr>Method = ''POST'', URLPath = path_unescape ?p, EscapedPath = ?p, Query = q, Header = bearer c, Body = none\<rparr>" (is "_ = ?r")
    and q: "q ''wait'' = wait_field wait"
    using receive_claim [of "trim_slashes (BaseURL c)" "''POST''" c wait "bearer c" none] by blast
  have plain: "plain_segment ?w" using assms(2) PathEscape_segment by (simp add: addressable_def)
  have trim: "TrimSuffix (TrimPrefix ?p ''/workers/'') ''/claim'' = ?w"
    using TrimPrefix_append [of "''/workers/''" "?w @ ''/claim''"] TrimSuffix_append [of ?w "''/claim''"] by simp
  have "HasSuffix ?p ''/claim''" using HasSuffix_append [of "''/workers/'' @ ?w" "''/claim''"] by simp
  moreover have "serve_mux 65 ops rops dec (net_clk n (arrived n)) (net_env n (arrived n)) ?r (server_now n)
      = Server_workerHeartbeat 65 ops dec (net_clk n (arrived n)) (net_env n (arrived n)) ?r (server_now n)"
    by (rule route_workers [where ps = "[?w, ''claim'']"]) (use plain in \<open>auto simp: plain_segment_def\<close>)
  ultimately have m: "serve_mux 65 ops rops dec (net_clk n (arrived n)) (net_env n (arrived n)) ?r (server_now n) = Some (resp, (server_now n)\<lparr>sched := sc\<rparr>)"
    using assms(2,3) q trim PathUnescape_PathEscape [of "cWorkerID c"]
    by (simp add: Server_workerHeartbeat_def Server_workerClaim_def addressable_def)
  have "Server_Handler 65 ops rops dec (net_clk n (arrived n)) (net_env n (arrived n)) ?r (server_now n) = Some (resp, (server_now n)\<lparr>sched := sc\<rparr>)"
    using Handler_accepts [OF assms(1), of ?r] m by simp
  from Do_delivered [OF assms(1) this [folded r] assms(4)] show ?thesis
    by (simp add: Client_ClaimWait_def server_http_def Let_def del: Do_following.simps)
qed

section \<open>Properties\<close>






text \<open>A network without faults around a server with one worker and one task, and JSON bodies as the values they stand for.\<close>

definition demo_enc :: "client_body \<Rightarrow> error + client_body option" where
  "demo_enc b = Inr (Some b)"

definition demo_dec :: "client_body option decoders" where
  "demo_dec = \<lparr>decode_id = (\<lambda>b. case b of Some (IdBody i) \<Rightarrow> Inr i | _ \<Rightarrow> Inl (ErrNew ''EOF'')), decode_ids = (\<lambda>_. Inl (ErrNew ''EOF'')),
     decode_submit = (\<lambda>_. Inl (ErrNew ''EOF'')), decode_token = (\<lambda>b. case b of Some (TokenBody k) \<Rightarrow> Inr k | _ \<Rightarrow> Inl (ErrNew ''EOF'')),
     decode_complete = (\<lambda>b. case b of
         Some (CompletionBody w k e r) \<Rightarrow> Inr \<lparr>rWorkerID = w, rLeaseToken = k, rError = (case e of None \<Rightarrow> [] | Some x \<Rightarrow> error_text x), rResult = r\<rparr>
       | _ \<Rightarrow> Inl (ErrNew ''EOF'')),
     ParseDuration = (\<lambda>_. Inr 1000000000)\<rparr>"

definition demo_untask :: "body \<Rightarrow> error + task" where
  "demo_untask b = (case b of TaskBody t \<Rightarrow> Inr t | _ \<Rightarrow> Inl (ErrNew ''EOF''))"

definition demo_client :: "string \<Rightarrow> client" where
  "demo_client i = \<lparr>BaseURL = ''http://h/'', cWorkerID = i, APIToken = ''k'', PollInterval = 1000\<rparr>"

definition demo_net :: "string \<Rightarrow> (memory_store, nodes) net" where
  "demo_net i = \<lparr>srv = NewWithToken (Scheduler_New
       \<lparr>mtasks = [(i, zero_task\<lparr>ID := i, Name := ''job'', Status := StatusPending, RunAt := 1, Retry := \<lparr>MaxAttempts = 1, Backoff = 0\<rparr>\<rparr>)], mworkers = []\<rparr> 1
       \<lparr>processTag = [], idCounter = 0\<rparr>) ''k'', arrived = 0, net_clk = (\<lambda>k _. 5 + int k), net_env = (\<lambda>_. demo_env), meanwhile = (\<lambda>_ s. s),
     net_err = (\<lambda>_. None), lost = (\<lambda>_. None)\<rparr>"

definition demo_http :: "string \<Rightarrow> (client_body option, (memory_store, nodes) net) http" where
  "demo_http i = server_http memory_ops memory_registry_ops demo_dec None demo_enc (\<lambda>_. ''error'') demo_untask (demo_client i)"


text \<open>C33: Whatever the transport answers and whenever the handler returns, the requests of \<^verbatim>\<open>Run\<close> follow the protocol: one registration,
  then rounds of a heartbeat and a claim, and between an answered claim and the report for it only renewals of that
  task with the token of that claim. A report is sent only after all renewals were granted, at most once per claim, and after a
  refused renewal, report, heartbeat or claim nothing is sent at all.\<close>

theorem run_keeps_protocol:
  assumes "\<forall>u e. bad_URL h u = Some e \<longrightarrow> \<not> errors_Is e ErrNoTask"
    and "Client_Run (noted h) c has_handler rs (w, []) = (res, (w', tr))"
  shows "\<exists>p. keeps h c tr p"
proof (cases "cWorkerID c = [] \<or> BaseURL c = [] \<or> \<not> has_handler")
  case True
  with assms(2) show ?thesis by (auto simp: Client_Run_def intro: keeps.start)
next
  case False
  obtain reg w1 tr1 where reg: "Client_Register (noted h) c (w, []) = (reg, (w1, tr1))" by (metis prod.collapse)
  from register_keeps [OF keeps.start reg, of "()"] obtain p where p: "keeps h c tr1 p" "reg = Inr () \<longrightarrow> p = Idle" by blast
  show ?thesis
  proof (cases reg)
    case (Inl e)
    with assms(2) False reg p show ?thesis by (auto simp: Client_Run_def)
  next
    case (Inr u)
    then have "Run_loop (noted h) c rs (w1, tr1) = (res, (w', tr))" using assms(2) False reg by (simp add: Client_Run_def)
    from loop_keeps [OF assms(1) _ this] p Inr show ?thesis by simp
  qed
qed

theorem run_keeps_protocol_witness:
  "\<exists>tr. (\<exists>p. keeps (demo_http ''w'') (demo_client ''w'') tr p) \<and> length tr = 5
     \<and> (\<exists>w'. Client_Run (noted (demo_http ''w'')) (demo_client ''w'') True
           [\<lparr>handler_events = [Tick None None, HandlerDone None], idle_end = None\<rparr>] (demo_net ''t'', []) = (None, (w', tr))
         \<and> map_option Status (map_of (mtasks (store (sched (srv w')))) ''t'') = Some StatusSuccess)"
proof -
  let ?run = "Client_Run (noted (demo_http ''w'')) (demo_client ''w'') True
     [\<lparr>handler_events = [Tick None None, HandlerDone None], idle_end = None\<rparr>] (demo_net ''t'', [])"
  have run: "fst ?run = None" "length (snd (snd ?run)) = 5"
    "map_option Status (map_of (mtasks (store (sched (srv (fst (snd ?run)))))) ''t'') = Some StatusSuccess" by code_simp+
  have "bad_URL (demo_http ''w'') u = None" for u by (simp add: demo_http_def server_http_def)
  then have "\<exists>p. keeps (demo_http ''w'') (demo_client ''w'') (snd (snd ?run)) p"
    using run_keeps_protocol [of "demo_http ''w''" "demo_client ''w''" True "[\<lparr>handler_events = [Tick None None, HandlerDone None], idle_end = None\<rparr>]"
        "demo_net ''t''" "fst ?run" "fst (snd ?run)" "snd (snd ?run)"] by simp
  with run show ?thesis by (intro exI [of _ "snd (snd ?run)"] conjI exI [of _ "fst (snd ?run)"]) (simp_all add: prod_eq_iff)
qed

text \<open>C35: A worker renews early enough. The interval between renewals is positive, and a lease that still has three nanoseconds or more
  when the handler starts is renewed at least twice before it ends.\<close>

theorem renewals_in_time:
  assumes "lease = Some until" and "3 \<le> until - now"
  shows "0 < renew_interval fallback lease now \<and> now + 2 * renew_interval fallback lease now < until"
proof -
  let ?d = "sat64 (until - now)"
  have d: "3 \<le> ?d" "?d \<le> until - now" using assms(2) by (auto simp: sat64_def)
  then have "0 < ?d div 3" by (simp add: pos_imp_zdiv_pos_iff)
  moreover from this have "renew_interval fallback (Some until) now \<le> ?d div 3" by (auto simp: renew_interval_def Let_def)
  moreover have "3 * (?d div 3) \<le> ?d" by simp
  moreover have "0 < renew_interval fallback lease now" by (auto simp: renew_interval_def Let_def split: option.split)
  ultimately show ?thesis using d assms(1) by auto
qed

theorem renewals_in_time_witness: "(0::int) < renew_interval 1000 (Some 100) 10 \<and> 10 + 2 * renew_interval 1000 (Some 100) 10 < 100"
  using renewals_in_time [of "Some 100" 100 10 1000] by simp



end
