(* ===== verification/Scheduler_Invariant.thy ===== *)
theory Scheduler_Invariant
  imports Scheduler_Lemmas
begin

text \<open>
  The fields of a scheduler that no store can spoil: over any store, faulty or not, every operation keeps the settings
  positive, the histogram at its eight buckets, the queue within its capacity, and the maps of reservations and workers proper maps.
\<close>

section \<open>The invariant\<close>

definition settings :: "'s scheduler \<Rightarrow> int \<times> duration \<times> duration \<times> int" where
  "settings s = (nworkers s, interval s, leaseTTL s, maxPending s)"

definition settings_ok :: "int \<times> duration \<times> duration \<times> int \<Rightarrow> bool" where
  "settings_ok x \<longleftrightarrow> (case x of (n, i, ttl, mp) \<Rightarrow> 1 \<le> n \<and> 0 < i \<and> 0 < ttl \<and> 0 < mp)"

definition ctx_known :: "(string, nat option) gmap \<Rightarrow> nat \<Rightarrow> bool" where
  "ctx_known r n \<longleftrightarrow> distinct (map fst r) \<and> (\<forall>i c. map_of r i = Some (Some c) \<longrightarrow> c < n)"

definition sched_ok :: "'s scheduler \<Rightarrow> bool" where
  "sched_ok s \<longleftrightarrow> settings_ok (settings s) \<and> length (queueLatencyBuckets s) = 8 \<and> int (length (queue s)) \<le> 2 * nworkers s
     \<and> ctx_known (running s) (nextCtx s) \<and> distinct (map fst (workersByID s))"

named_theorems kept_ok

lemma settings_update [simp]:
  "settings (s\<lparr>store := a\<rparr>) = settings s" "settings (s\<lparr>handlers := b\<rparr>) = settings s" "settings (s\<lparr>queue := c\<rparr>) = settings s"
  "settings (s\<lparr>running := d\<rparr>) = settings s" "settings (s\<lparr>canceledCtx := e\<rparr>) = settings s" "settings (s\<lparr>nextCtx := f\<rparr>) = settings s"
  "settings (s\<lparr>workersByID := g\<rparr>) = settings s" "settings (s\<lparr>leaderGate := j\<rparr>) = settings s" "settings (s\<lparr>started := k\<rparr>) = settings s"
  "settings (s\<lparr>stopped := l\<rparr>) = settings s" "settings (s\<lparr>submitted := m\<rparr>) = settings s" "settings (s\<lparr>succeeded := m\<rparr>) = settings s"
  "settings (s\<lparr>failed := m\<rparr>) = settings s" "settings (s\<lparr>retried := m\<rparr>) = settings s" "settings (s\<lparr>canceled := m\<rparr>) = settings s"
  "settings (s\<lparr>leaseExpired := m\<rparr>) = settings s" "settings (s\<lparr>queueLatencyBuckets := q\<rparr>) = settings s"
  "settings (s\<lparr>queueLatencySum := r\<rparr>) = settings s" "settings (s\<lparr>queueLatencyCount := t\<rparr>) = settings s" "settings (s\<lparr>ids := u\<rparr>) = settings s"
  by (simp_all add: settings_def)

lemma ctx_known_reserve [simp]: "ctx_known r n \<Longrightarrow> ctx_known (AList.update i None r) n"
  by (auto simp: ctx_known_def gmap_simps)

lemma ctx_known_start [simp]: "ctx_known r n \<Longrightarrow> ctx_known (AList.update i (Some n) r) (Suc n)"
  by (auto simp: ctx_known_def gmap_simps less_SucI)

lemma ctx_known_delete [simp]: "ctx_known r n \<Longrightarrow> ctx_known (AList.delete i r) n"
  by (auto simp: ctx_known_def gmap_simps)

section \<open>Every operation keeps it\<close>

lemma New_ok: "sched_ok (Scheduler_New st w g)"
  by (simp add: sched_ok_def Scheduler_New_def settings_def settings_ok_def ctx_known_def Let_def)

lemma store_ok [simp]: "sched_ok (s\<lparr>store := m\<rparr>) = sched_ok s"
  by (simp add: sched_ok_def)

lemma counters_ok [simp]:
  "sched_ok (s\<lparr>submitted := x\<rparr>) = sched_ok s" "sched_ok (s\<lparr>succeeded := x\<rparr>) = sched_ok s" "sched_ok (s\<lparr>failed := x\<rparr>) = sched_ok s"
  "sched_ok (s\<lparr>retried := x\<rparr>) = sched_ok s" "sched_ok (s\<lparr>canceled := x\<rparr>) = sched_ok s" "sched_ok (s\<lparr>leaseExpired := x\<rparr>) = sched_ok s"
  "sched_ok (s\<lparr>ids := g\<rparr>) = sched_ok s" "sched_ok (s\<lparr>started := b\<rparr>) = sched_ok s" "sched_ok (s\<lparr>stopped := b\<rparr>) = sched_ok s"
  "sched_ok (s\<lparr>canceledCtx := cs\<rparr>) = sched_ok s" "sched_ok (s\<lparr>leaderGate := l\<rparr>) = sched_ok s" "sched_ok (s\<lparr>handlers := hs\<rparr>) = sched_ok s"
  by (simp_all add: sched_ok_def)

lemma sched_ok_parts:
  "sched_ok s \<Longrightarrow> ctx_known (running s) (nextCtx s)" "sched_ok s \<Longrightarrow> distinct (map fst (workersByID s))"
  by (simp_all add: sched_ok_def)

lemma running_ok [simp]: "sched_ok s \<Longrightarrow> ctx_known r (nextCtx s) \<Longrightarrow> sched_ok (s\<lparr>running := r\<rparr>)"
  by (simp add: sched_ok_def)

lemma workers_ok [simp]: "sched_ok s \<Longrightarrow> distinct (map fst ws) \<Longrightarrow> sched_ok (s\<lparr>workersByID := ws\<rparr>)"
  by (simp add: sched_ok_def)

lemma queue_ok [simp]: "sched_ok s \<Longrightarrow> int (length q) \<le> 2 * nworkers s \<Longrightarrow> sched_ok (s\<lparr>queue := q\<rparr>)"
  by (simp add: sched_ok_def)

lemma RegisterWorker_ok [kept_ok]: "sched_ok s \<Longrightarrow> sched_ok (snd (Scheduler_RegisterWorker ops i now s))"
  by (simp add: sched_ok_parts Scheduler_RegisterWorker_def Let_def split: option.split prod.split sum.split)

lemma Heartbeat_ok [kept_ok]: "sched_ok s \<Longrightarrow> sched_ok (snd (Scheduler_Heartbeat ops i now s))"
  by (simp add: sched_ok_parts Scheduler_Heartbeat_def Let_def split: option.split prod.split sum.split)

lemma Submit_ok [kept_ok]: "sched_ok s \<Longrightarrow> sched_ok (snd (Scheduler_Submit ops clk t s))"
  by (simp add: sched_ok_parts Scheduler_Submit_def Let_def split: option.split prod.split sum.split)

lemma observe_ok [kept_ok]: "sched_ok s \<Longrightarrow> sched_ok (Scheduler_observeQueueLatency t now s)"
  by (simp add: Scheduler_observeQueueLatency_def sched_ok_def observe_def Let_def)

lemma observe_nextCtx [simp]: "nextCtx (Scheduler_observeQueueLatency t now s) = nextCtx s"
  by (simp add: Scheduler_observeQueueLatency_def Let_def)

lemma claim_loop_ok [kept_ok]: "sched_ok s \<Longrightarrow> sched_ok (snd (claim_loop n ops wid items now clk skip s))"
proof (induction n arbitrary: clk skip s)
  case (Suc n)
  then show ?case by (simp add: sched_ok_parts Let_def observe_ok split: option.split prod.split sum.split)
qed simp

lemma Claim_ok [kept_ok]: "sched_ok s \<Longrightarrow> sched_ok (snd (Scheduler_Claim ops wid clk s))"
  by (simp add: sched_ok_parts Scheduler_Claim_def Let_def kept_ok split: option.split prod.split sum.split)

lemma finish_ok [kept_ok]: "sched_ok s \<Longrightarrow> sched_ok (snd (Scheduler_finish ops t e now s))"
  by (simp add: sched_ok_parts Scheduler_finish_def count_metric_def Let_def split: option.split prod.split metric.split)

lemma RenewTaskLease_ok [kept_ok]: "sched_ok s \<Longrightarrow> sched_ok (snd (Scheduler_RenewTaskLease ops wid i tok clk s))"
  by (simp add: sched_ok_parts Scheduler_RenewTaskLease_def Let_def split: option.split prod.split sum.split)

lemma Complete_ok [kept_ok]: "sched_ok s \<Longrightarrow> sched_ok (snd (Scheduler_CompleteTaskWithResult ops wid i tok f r clk s))"
proof -
  assume ok: "sched_ok s"
  have "sched_ok s1" if "Scheduler_finish ops u e now s = (x, s1)" for u e now x s1 using finish_ok [OF ok, of ops u e now] that by simp
  with ok show ?thesis by (auto simp: sched_ok_parts Scheduler_CompleteTaskWithResult_def Let_def split: option.split prod.split sum.split)
qed

lemma release_ok [kept_ok]: "sched_ok s \<Longrightarrow> sched_ok (release i s)"
  by (simp add: sched_ok_parts release_def call_cancel_def split: option.split)

lemma Cancel_ok [kept_ok]: "sched_ok s \<Longrightarrow> sched_ok (snd (Scheduler_Cancel ops i now s))"
  by (simp add: sched_ok_parts Scheduler_Cancel_def Let_def release_ok split: option.split prod.split sum.split)

lemma Purge_ok [kept_ok]: "sched_ok s \<Longrightarrow> sched_ok (snd (Scheduler_Purge ops i s))"
  by (simp add: sched_ok_parts Scheduler_Purge_def split: prod.split sum.split)

lemma fold_ok: "(\<And>x s. sched_ok s \<Longrightarrow> sched_ok (f x s)) \<Longrightarrow> sched_ok s \<Longrightarrow> sched_ok (fold f xs s)"
  by (induction xs arbitrary: s) auto

lemma reap_step_ok: "sched_ok s \<Longrightarrow> sched_ok (reap_step ops now t s)"
  by (simp add: sched_ok_parts reap_step_def Let_def release_ok split: option.split prod.split sum.split)

lemma reapExpired_ok [kept_ok]: "sched_ok s \<Longrightarrow> sched_ok (Scheduler_reapExpired ops clk s)"
  by (simp add: sched_ok_parts Scheduler_reapExpired_def fold_ok reap_step_ok split: sum.split)

lemma dispatch_step_ok: "sched_ok s \<Longrightarrow> sched_ok (dispatch_step ops clk t s)"
  by (simp add: sched_ok_parts dispatch_step_def Let_def observe_ok split: option.split prod.split)

lemma dispatch_loop_ok: "sched_ok s \<Longrightarrow> sched_ok (dispatch_loop ops clk ts s)"
  by (induction ts arbitrary: clk s) (simp_all add: dispatch_step_ok)

lemma dispatch_ok [kept_ok]: "sched_ok s \<Longrightarrow> sched_ok (Scheduler_dispatch ops clk s)"
  by (simp add: sched_ok_parts Scheduler_dispatch_def Let_def reapExpired_ok dispatch_loop_ok split: sum.split)

lemma execute_begin_ok [kept_ok]: "sched_ok s \<Longrightarrow> sched_ok (snd (execute_begin ops t s))"
  by (auto simp: execute_begin_def sched_ok_def split: sum.split)

lemma execute_end_ok [kept_ok]: "sched_ok s \<Longrightarrow> sched_ok (execute_end ops t c e b now s)"
  by (simp add: sched_ok_parts execute_end_def Let_def finish_ok split: sum.split)

lemma worker_receive_ok [kept_ok]: "sched_ok s \<Longrightarrow> sched_ok (snd (worker_receive ops s))"
proof -
  assume ok: "sched_ok s"
  then have "sched_ok (s\<lparr>queue := q\<rparr>)" if "queue s = t # q" for t q using that by (simp add: sched_ok_def)
  from execute_begin_ok [OF this] ok show ?thesis by (auto simp: sched_ok_parts worker_receive_def split: list.split prod.split) (metis snd_conv)
qed

lemma register_locals_ok: "sched_ok s \<Longrightarrow> sched_ok (register_locals ops now clk ks s)"
  by (induction ks arbitrary: clk s) (simp_all add: RegisterWorker_ok)

lemma Start_ok [kept_ok]: "sched_ok s \<Longrightarrow> sched_ok (Scheduler_Start ops clk s)"
  by (simp add: sched_ok_parts Scheduler_Start_def Scheduler_recoverRunning_def Let_def register_locals_ok split: option.split)

lemma loop_exit_ok [kept_ok]: "sched_ok s \<Longrightarrow> sched_ok (Scheduler_loop_exit ops now s)"
  by (simp add: sched_ok_parts Scheduler_loop_exit_def Scheduler_requeueRunningOnStop_def Let_def)
     (rule fold_ok, auto simp: requeue_step_def)

lemma Stop_ok [kept_ok]: "sched_ok s \<Longrightarrow> sched_ok (Scheduler_Stop ops now s)"
  by (simp add: sched_ok_parts Scheduler_Stop_def loop_exit_ok)

lemma heartbeat_loop_ok: "sched_ok s \<Longrightarrow> sched_ok (heartbeat_loop ops clk is' s)"
  by (induction is' arbitrary: clk s) (simp_all add: Heartbeat_ok)

lemma heartbeatTick_ok [kept_ok]: "sched_ok s \<Longrightarrow> sched_ok (Scheduler_heartbeatTick ops clk s)"
  by (simp add: sched_ok_parts Scheduler_heartbeatTick_def heartbeat_loop_ok)

lemma SetMaxPending_ok [kept_ok]: "sched_ok s \<Longrightarrow> sched_ok (Scheduler_SetMaxPending n s)"
  unfolding Scheduler_SetMaxPending_def sched_ok_def settings_def settings_ok_def by (cases "0 < n") simp_all

lemma SetLeaseTTL_ok [kept_ok]: "sched_ok s \<Longrightarrow> sched_ok (Scheduler_SetLeaseTTL d s)"
  unfolding Scheduler_SetLeaseTTL_def sched_ok_def settings_def settings_ok_def by (cases "0 < d") simp_all

lemma SetLeaderGate_ok [kept_ok]: "sched_ok s \<Longrightarrow> sched_ok (Scheduler_SetLeaderGate g s)"
  by (simp add: Scheduler_SetLeaderGate_def)

lemma Register_ok [kept_ok]: "sched_ok s \<Longrightarrow> sched_ok (snd (Scheduler_Register name nil_handler s))"
  by (simp add: Scheduler_Register_def)

section \<open>Reachable states\<close>

text \<open>Every operation of a scheduler as a step, over one store, in any order and with any arguments. The store may also
  change by itself, as one that other processes share does.\<close>

inductive sched_step :: "'s store_ops \<Rightarrow> 's scheduler \<Rightarrow> 's scheduler \<Rightarrow> bool" for ops where
  other: "sched_step ops s (s\<lparr>store := m\<rparr>)"
| set_max: "sched_step ops s (Scheduler_SetMaxPending n s)"
| set_ttl: "sched_step ops s (Scheduler_SetLeaseTTL d s)"
| set_gate: "sched_step ops s (Scheduler_SetLeaderGate g s)"
| register: "sched_step ops s (snd (Scheduler_Register name nil_handler s))"
| register_worker: "sched_step ops s (snd (Scheduler_RegisterWorker ops i now s))"
| heartbeat: "sched_step ops s (snd (Scheduler_Heartbeat ops i now s))"
| submit: "sched_step ops s (snd (Scheduler_Submit ops clk t s))"
| claim: "sched_step ops s (snd (Scheduler_Claim ops i clk s))"
| renew: "sched_step ops s (snd (Scheduler_RenewTaskLease ops i j tok clk s))"
| complete: "sched_step ops s (snd (Scheduler_CompleteTaskWithResult ops i j tok f r clk s))"
| cancel: "sched_step ops s (snd (Scheduler_Cancel ops i now s))"
| purge: "sched_step ops s (snd (Scheduler_Purge ops i s))"
| tick: "sched_step ops s (Scheduler_dispatch ops clk s)"
| beat: "sched_step ops s (Scheduler_heartbeatTick ops clk s)"
| receive: "sched_step ops s (snd (worker_receive ops s))"
| finish: "sched_step ops s (execute_end ops t c e b now s)"
| start: "sched_step ops s (Scheduler_Start ops clk s)"
| exit: "sched_step ops s (Scheduler_loop_exit ops now s)"
| stop: "sched_step ops s (Scheduler_Stop ops now s)"

lemma step_ok: "sched_step ops s s' \<Longrightarrow> sched_ok s \<Longrightarrow> sched_ok s'"
  by (induction rule: sched_step.induct) (simp_all add: kept_ok)

lemma reachable_ok:
  assumes "(sched_step ops)\<^sup>*\<^sup>* s s'" and "sched_ok s"
  shows "sched_ok s'"
  using assms by (induction rule: rtranclp_induct) (auto intro: step_ok)

text \<open>C39: Over any store and through any sequence of operations, a scheduler stays well formed: at least one worker, positive
  intervals, leases and limits, eight histogram buckets, a queue within twice the number of workers, one reservation per
  task with a context that exists, and one entry per worker.\<close>

theorem scheduler_stays_typed:
  assumes "(sched_step ops)\<^sup>*\<^sup>* (Scheduler_New st w g) s"
  shows "1 \<le> nworkers s \<and> 0 < interval s \<and> 0 < leaseTTL s \<and> 0 < maxPending s \<and> length (queueLatencyBuckets s) = 8
    \<and> int (length (queue s)) \<le> 2 * nworkers s \<and> distinct (map fst (running s))
    \<and> (\<forall>i c. map_of (running s) i = Some (Some c) \<longrightarrow> c < nextCtx s) \<and> distinct (map fst (workersByID s))"
  using reachable_ok [OF assms New_ok] by (simp add: sched_ok_def settings_def settings_ok_def ctx_known_def)

theorem scheduler_stays_typed_witness:
  "length (queueLatencyBuckets (snd (Scheduler_RegisterWorker memory_ops ''w'' 5
      (Scheduler_New NewMemory (- 3) \<lparr>processTag = [], idCounter = 0\<rparr>)))) = 8"
proof -
  have "(sched_step memory_ops)\<^sup>*\<^sup>* (Scheduler_New NewMemory (- 3) \<lparr>processTag = [], idCounter = 0\<rparr>)
     (snd (Scheduler_RegisterWorker memory_ops ''w'' 5 (Scheduler_New NewMemory (- 3) \<lparr>processTag = [], idCounter = 0\<rparr>)))"
    by (rule r_into_rtranclp) (rule sched_step.register_worker)
  from scheduler_stays_typed [OF this] show ?thesis by simp
qed

end
