(* ===== verification/Server_Command.thy ===== *)
theory Server_Command
  imports Api Scheduler_Invariant
begin

text \<open>
  The server command, \<^verbatim>\<open>src/cmd/jobraft/main.go\<close>: configuration from the environment, the order in which the parts are
  started, and the shutdown.

  The environment is a function (empty for an unset variable). Opening a store or a registry file is an
  argument, as the stores are modelled in theories of their own; so is \<^verbatim>\<open>time.ParseDuration\<close>. The scheduler runs its loop on a
  goroutine from the moment it is started: the dispatch ticks that happen before the leader gate is set are an argument.
  A fatal log message ends the program; it is the left injection here.
\<close>

section \<open>Paths\<close>

text \<open>\<^verbatim>\<open>filepath.Clean\<close> on Unix. The components so far are in reverse order.\<close>

fun lexical :: "bool \<Rightarrow> string list \<Rightarrow> string list \<Rightarrow> string list" where
  "lexical rooted [] acc = rev acc"
| "lexical rooted (p # ps) acc =
     (if p = [] \<or> p = ''.'' then lexical rooted ps acc
      else if p = ''..'' then
        (if acc \<noteq> [] \<and> hd acc \<noteq> ''..'' then lexical rooted ps (tl acc)
         else if rooted then lexical rooted ps acc else lexical rooted ps (p # acc))
      else lexical rooted ps (p # acc))"

definition filepath_Clean :: "string \<Rightarrow> string" where
  "filepath_Clean p =
     (let rooted = (p \<noteq> [] \<and> hd p = CHR ''/''); out = Join (lexical rooted (Split (CHR ''/'') p) []) (CHR ''/'') in
      if rooted then CHR ''/'' # out else if out = [] then ''.'' else out)"

section \<open>Configuration\<close>

datatype store_choice = UseMemory | UseFile string | UsePostgres string

definition choose_store :: "(string \<Rightarrow> string) \<Rightarrow> store_choice" where
  "choose_store env =
     (if env ''JOBRAFT_DATABASE_URL'' \<noteq> [] then UsePostgres (env ''JOBRAFT_DATABASE_URL'')
      else if env ''JOBRAFT_STORE'' \<noteq> [] then UseFile (filepath_Clean (env ''JOBRAFT_STORE''))
      else UseMemory)"

definition open_failure :: "store_choice \<Rightarrow> error \<Rightarrow> string" where
  "open_failure ch e =
     (case ch of
        UsePostgres _ \<Rightarrow> ''PostgreSQL store unavailable: '' @ error_text e
      | _ \<Rightarrow> ''file store unavailable: '' @ error_text e)"

definition workers_setting :: "(string \<Rightarrow> string) \<Rightarrow> string + int" where
  "workers_setting env =
     (let value = env ''JOBRAFT_WORKERS'' in
      if value = [] then Inr 4
      else case Atoi value of
             Inl _ \<Rightarrow> Inl ''JOBRAFT_WORKERS must be a positive integer''
           | Inr parsed \<Rightarrow> if parsed < 1 then Inl ''JOBRAFT_WORKERS must be a positive integer'' else Inr parsed)"

definition set_max_pending :: "(string \<Rightarrow> string) \<Rightarrow> 's scheduler \<Rightarrow> string + 's scheduler" where
  "set_max_pending env sch =
     (let value = env ''JOBRAFT_MAX_PENDING'' in
      if value = [] then Inr sch
      else case Atoi value of
             Inl _ \<Rightarrow> Inl ''JOBRAFT_MAX_PENDING must be a positive integer''
           | Inr parsed \<Rightarrow> if parsed > 0 then Inr (Scheduler_SetMaxPending parsed sch)
                           else Inl ''JOBRAFT_MAX_PENDING must be a positive integer'')"

definition set_lease_ttl :: "(string \<Rightarrow> error + duration) \<Rightarrow> (string \<Rightarrow> string) \<Rightarrow> 's scheduler \<Rightarrow> string + 's scheduler" where
  "set_lease_ttl parse env sch =
     (let value = env ''JOBRAFT_LEASE_TTL'' in
      if value = [] then Inr sch
      else case parse value of
             Inl e \<Rightarrow> Inl (''JOBRAFT_LEASE_TTL must be a valid duration: '' @ error_text e)
           | Inr parsed \<Rightarrow> if parsed > 0 then Inr (Scheduler_SetLeaseTTL parsed sch)
                           else Inl ''JOBRAFT_LEASE_TTL must be a valid duration: <nil>'')"

definition configured :: "(string \<Rightarrow> error + duration) \<Rightarrow> (string \<Rightarrow> string) \<Rightarrow> id_gen \<Rightarrow> 's \<Rightarrow> string + 's scheduler" where
  "configured parse env g st =
     (case workers_setting env of Inl m \<Rightarrow> Inl m | Inr workers \<Rightarrow>
        (case set_max_pending env (Scheduler_New st workers g) of Inl m \<Rightarrow> Inl m | Inr sch \<Rightarrow>
           (case set_lease_ttl parse env sch of Inl m \<Rightarrow> Inl m | Inr sch' \<Rightarrow> Inr (snd (Scheduler_Register ''echo'' False sch')))))"

section \<open>Starting\<close>

record 'r cluster_env =
  memory_registry :: 'r
  open_registry :: "string \<Rightarrow> error + 'r"
  reg_renew :: "string \<Rightarrow> duration \<Rightarrow> gtime \<Rightarrow> 'r \<Rightarrow> (error + node) \<times> 'r"

record ('s, 'r) process =
  apiServer :: "('s, 'r) server"
  elect :: "elector option"
  addr :: string

definition join_cluster ::
  "'r cluster_env \<Rightarrow> (string \<Rightarrow> string) \<Rightarrow> gtime \<Rightarrow> ('s, 'r) process \<Rightarrow> string + ('s, 'r) process" where
  "join_cluster ce env now p =
     (let nodeID = env ''JOBRAFT_NODE_ID'' in
      if nodeID = [] then Inr p
      else case (if env ''JOBRAFT_CLUSTER_FILE'' = [] then Inr (memory_registry ce)
                 else open_registry ce (filepath_Clean (env ''JOBRAFT_CLUSTER_FILE''))) of
             Inl e \<Rightarrow> Inl (''cluster file unavailable: '' @ error_text e)
           | Inr reg \<Rightarrow>
               (case NewElector False nodeID 10000000000 of
                  Inl e \<Rightarrow> Inl (''cluster election setup failed: '' @ error_text e)
                | Inr el \<Rightarrow>
                    (let (el', reg') = Elector_Start (reg_renew ce) now el reg;
                         sch = Scheduler_SetLeaderGate (Some (Elector_IsLeader el')) (sched (apiServer p)) in
                     Inr (p\<lparr>apiServer := NewWithClusterToken sch reg' (env ''JOBRAFT_API_TOKEN''), elect := Some el'\<rparr>))))"

definition main_start ::
  "'s store_ops \<Rightarrow> (store_choice \<Rightarrow> error + 's) \<Rightarrow> 'r cluster_env \<Rightarrow> (string \<Rightarrow> error + duration) \<Rightarrow> id_gen \<Rightarrow> (string \<Rightarrow> string)
   \<Rightarrow> clock \<Rightarrow> clock list \<Rightarrow> gtime \<Rightarrow> string + ('s, 'r) process" where
  "main_start ops open_store ce parse g env clk ticks now =
     (case open_store (choose_store env) of
        Inl e \<Rightarrow> Inl (open_failure (choose_store env) e)
      | Inr st \<Rightarrow>
          (case configured parse env g st of
             Inl m \<Rightarrow> Inl m
           | Inr sch \<Rightarrow>
               (let sch1 = Scheduler_Start ops clk sch; sch2 = fold (Scheduler_dispatch ops) ticks sch1 in
                join_cluster ce env now
                  \<lparr>apiServer = NewWithToken sch2 (env ''JOBRAFT_API_TOKEN''), elect = None,
                   addr = (if env ''JOBRAFT_ADDR'' = [] then '':8080'' else env ''JOBRAFT_ADDR'')\<rparr>)))"

text \<open>On a signal the context of the scheduler is cancelled, which ends its loop; \<^verbatim>\<open>Stop\<close> then finds it stopped. The deferred
  call stops the elector.\<close>

definition main_shutdown :: "'s store_ops \<Rightarrow> gtime \<Rightarrow> gtime \<Rightarrow> ('s, 'r) process \<Rightarrow> ('s, 'r) process" where
  "main_shutdown ops now now' p =
     (let srv = apiServer p; sch = Scheduler_Stop ops now' (Scheduler_loop_exit ops now (sched srv)) in
      p\<lparr>apiServer := srv\<lparr>sched := sch\<rparr>, elect := map_option Elector_Stop (elect p)\<rparr>)"

section \<open>Properties\<close>

lemma configured_cases:
  "configured parse env g st = Inr sch \<longleftrightarrow> (\<exists>n s1 s2. workers_setting env = Inr n \<and> set_max_pending env (Scheduler_New st n g) = Inr s1
     \<and> set_lease_ttl parse env s1 = Inr s2 \<and> sch = snd (Scheduler_Register ''echo'' False s2))"
  by (auto simp: configured_def split: sum.splits)

lemma workers_setting_positive: "workers_setting env = Inr n \<Longrightarrow> 1 \<le> n"
  by (auto simp: workers_setting_def Let_def split: if_splits sum.splits)

lemma set_max_pending_cases:
  "set_max_pending env s = Inr s1 \<Longrightarrow> s1 = s \<and> env ''JOBRAFT_MAX_PENDING'' = []
     \<or> (\<exists>n. Atoi (env ''JOBRAFT_MAX_PENDING'') = Inr n \<and> 0 < n \<and> s1 = Scheduler_SetMaxPending n s)"
  by (auto simp: set_max_pending_def Let_def split: if_splits sum.splits)

lemma set_lease_ttl_cases:
  "set_lease_ttl parse env s = Inr s1 \<Longrightarrow> s1 = s \<and> env ''JOBRAFT_LEASE_TTL'' = []
     \<or> (\<exists>d. parse (env ''JOBRAFT_LEASE_TTL'') = Inr d \<and> 0 < d \<and> s1 = Scheduler_SetLeaseTTL d s)"
  by (auto simp: set_lease_ttl_def Let_def split: if_splits sum.splits)

text \<open>What the settings of a configured scheduler are.\<close>

definition wanted_settings :: "(string \<Rightarrow> error + duration) \<Rightarrow> (string \<Rightarrow> string) \<Rightarrow> int \<times> duration \<times> duration \<times> int" where
  "wanted_settings parse env =
     (let number = (\<lambda>k d. if env k = [] then d else projr (Atoi (env k))); n = number ''JOBRAFT_WORKERS'' 4 in
      (n, 100000000, if env ''JOBRAFT_LEASE_TTL'' = [] then 30000000000 else projr (parse (env ''JOBRAFT_LEASE_TTL'')),
       number ''JOBRAFT_MAX_PENDING'' (n * 100)))"

lemma Atoi_empty: "Atoi [] = Inl (ErrNew ''invalid syntax'')"
  by (simp add: Atoi_def)

lemma configured_settings:
  assumes "configured parse env g st = Inr sch" and "\<And>d. parse [] \<noteq> Inr d"
  shows "settings sch = wanted_settings parse env \<and> sched_ok sch \<and> ''echo'' \<in> set (handlers sch) \<and> store sch = st \<and> leaderGate sch = None"
proof -
  obtain n s1 s2 where c: "workers_setting env = Inr n" "set_max_pending env (Scheduler_New st n g) = Inr s1"
    "set_lease_ttl parse env s1 = Inr s2" "sch = snd (Scheduler_Register ''echo'' False s2)"
    using assms(1) unfolding configured_cases by blast
  have n: "n = (if env ''JOBRAFT_WORKERS'' = [] then 4 else projr (Atoi (env ''JOBRAFT_WORKERS'')))"
    using c(1) by (auto simp: workers_setting_def Let_def split: if_splits sum.splits)
  have "sched_ok sch"
    using set_max_pending_cases [OF c(2)] set_lease_ttl_cases [OF c(3)] c(4) New_ok
    by (auto intro!: Register_ok SetLeaseTTL_ok SetMaxPending_ok)
  moreover have "settings sch = wanted_settings parse env"
    using set_max_pending_cases [OF c(2)] set_lease_ttl_cases [OF c(3)] c(4) n workers_setting_positive [OF c(1)] assms(2)
    by (auto simp: settings_def wanted_settings_def Let_def Scheduler_Register_def Scheduler_SetLeaseTTL_def Scheduler_SetMaxPending_def
        Scheduler_New_def Atoi_empty)
  moreover have "''echo'' \<in> set (handlers sch)" "store sch = st" "leaderGate sch = None"
    using set_max_pending_cases [OF c(2)] set_lease_ttl_cases [OF c(3)] c(4)
    by (auto simp: Scheduler_Register_def Scheduler_SetLeaseTTL_def Scheduler_SetMaxPending_def Scheduler_New_def Let_def)
  ultimately show ?thesis by blast
qed

text \<open>Starting and ticking change no setting.\<close>

lemma settings_register: "settings (snd (Scheduler_RegisterWorker ops i now s)) = settings s"
  by (simp add: Scheduler_RegisterWorker_def Let_def split: option.split prod.split sum.split)

lemma settings_locals: "settings (register_locals ops now clk ks s) = settings s"
  by (induction ks arbitrary: clk s) (simp_all add: settings_register)

lemma settings_Start: "settings (Scheduler_Start ops clk s) = settings s"
  by (simp add: Scheduler_Start_def Scheduler_recoverRunning_def settings_locals Let_def split: option.split)

lemma settings_release: "settings (release i s) = settings s"
  by (simp add: release_def call_cancel_def split: option.split)

lemma settings_reap: "settings (reap_step ops now t s) = settings s"
  by (simp add: reap_step_def Let_def settings_release split: option.split prod.split sum.split)

lemma settings_reapExpired: "settings (Scheduler_reapExpired ops clk s) = settings s"
proof -
  have "settings (fold (reap_step ops x) items s) = settings s" for x items by (induction items arbitrary: s) (simp_all add: settings_reap)
  then show ?thesis by (simp add: Scheduler_reapExpired_def split: sum.split)
qed

lemma settings_observe: "settings (Scheduler_observeQueueLatency t now s) = settings s"
  by (simp add: Scheduler_observeQueueLatency_def Let_def)

lemma settings_dispatch_step: "settings (dispatch_step ops clk t s) = settings s"
  by (simp add: dispatch_step_def Let_def settings_observe split: option.split prod.split)

lemma settings_dispatch: "settings (Scheduler_dispatch ops clk s) = settings s"
proof -
  have "settings (dispatch_loop ops c ts s) = settings s" for c ts s by (induction ts arbitrary: c s) (simp_all add: settings_dispatch_step)
  then show ?thesis by (simp add: Scheduler_dispatch_def Let_def settings_reapExpired split: sum.split)
qed

lemma settings_ticks: "settings (fold (Scheduler_dispatch ops) ticks s) = settings s"
  by (induction ticks arbitrary: s) (simp_all add: settings_dispatch)

lemma join_cluster_ok:
  assumes "join_cluster ce env now p = Inr p'" and "token (apiServer p) = env ''JOBRAFT_API_TOKEN''" and "elect p = None"
  shows "settings (sched (apiServer p')) = settings (sched (apiServer p)) \<and> (sched_ok (sched (apiServer p)) \<longrightarrow> sched_ok (sched (apiServer p')))
    \<and> token (apiServer p') = env ''JOBRAFT_API_TOKEN'' \<and> addr p' = addr p
    \<and> (if env ''JOBRAFT_NODE_ID'' = [] then p' = p
       else registry (apiServer p') \<noteq> None \<and> (\<exists>e. elect p' = Some e \<and> eid e = env ''JOBRAFT_NODE_ID''
              \<and> leaderGate (sched (apiServer p')) = Some (Elector_IsLeader e)))"
proof (cases "env ''JOBRAFT_NODE_ID'' = []")
  case False
  have id: "eid (fst (Elector_Start renew x el r)) = eid el" for renew x r and el :: elector
    by (auto simp: Elector_Start_def Elector_renew_def Let_def split: prod.split sum.split)
  have new: "NewElector False (env ''JOBRAFT_NODE_ID'') 10000000000
      = Inr \<lparr>eid = env ''JOBRAFT_NODE_ID'', ettl = 10000000000, enode = zero_node, estarted = False\<rparr>"
    using False by (simp add: NewElector_def)
  obtain r where "(if env ''JOBRAFT_CLUSTER_FILE'' = [] then Inr (memory_registry ce) else open_registry ce (filepath_Clean (env ''JOBRAFT_CLUSTER_FILE''))) = Inr r"
    using assms(1) False by (auto simp: join_cluster_def Let_def split: sum.splits if_splits)
  moreover obtain el r' where st: "Elector_Start (reg_renew ce) now \<lparr>eid = env ''JOBRAFT_NODE_ID'', ettl = 10000000000, enode = zero_node, estarted = False\<rparr> r = (el, r')"
    by fastforce
  ultimately have p': "p' = p\<lparr>apiServer := NewWithClusterToken (Scheduler_SetLeaderGate (Some (Elector_IsLeader el)) (sched (apiServer p))) r' (env ''JOBRAFT_API_TOKEN''),
      elect := Some el\<rparr>"
    using assms(1) False new by (simp add: join_cluster_def Let_def)
  have "eid el = env ''JOBRAFT_NODE_ID''" using id [of "reg_renew ce" now "\<lparr>eid = env ''JOBRAFT_NODE_ID'', ettl = 10000000000, enode = zero_node, estarted = False\<rparr>" r] st by simp
  then show ?thesis unfolding p' using False by (simp add: NewWithClusterToken_def Scheduler_SetLeaderGate_def)
qed (use assms in \<open>simp add: join_cluster_def\<close>)

text \<open>C38: A server command that comes up has the settings its environment asks for: numbers of workers and of in-flight tasks and lease
  length as given or at their defaults, all positive, on the chosen store; the API demands the configured token; and with a node id the leader gate
  follows the elector of that node.\<close>

theorem main_settings:
  assumes "main_start ops open_store ce parse g env clk ticks now = Inr p" and "\<forall>d. parse [] \<noteq> Inr d"
  shows "settings (sched (apiServer p)) = wanted_settings parse env \<and> settings_ok (wanted_settings parse env)
    \<and> (\<exists>st. open_store (choose_store env) = Inr st) \<and> token (apiServer p) = env ''JOBRAFT_API_TOKEN''
    \<and> addr p = (if env ''JOBRAFT_ADDR'' = [] then '':8080'' else env ''JOBRAFT_ADDR'')
    \<and> (env ''JOBRAFT_NODE_ID'' = [] \<longrightarrow> elect p = None)
    \<and> (env ''JOBRAFT_NODE_ID'' \<noteq> [] \<longrightarrow> (\<exists>e. elect p = Some e \<and> eid e = env ''JOBRAFT_NODE_ID''
        \<and> leaderGate (sched (apiServer p)) = Some (Elector_IsLeader e)))"
proof -
  obtain st sch where st: "open_store (choose_store env) = Inr st" and sch: "configured parse env g st = Inr sch"
    and j: "join_cluster ce env now \<lparr>apiServer = NewWithToken (fold (Scheduler_dispatch ops) ticks (Scheduler_Start ops clk sch)) (env ''JOBRAFT_API_TOKEN''),
        elect = None, addr = (if env ''JOBRAFT_ADDR'' = [] then '':8080'' else env ''JOBRAFT_ADDR'')\<rparr> = Inr p"
    using assms(1) by (auto simp: main_start_def Let_def split: sum.splits)
  have "settings sch = wanted_settings parse env" "sched_ok sch" using configured_settings [OF sch] assms(2) by auto
  then have "settings (fold (Scheduler_dispatch ops) ticks (Scheduler_Start ops clk sch)) = wanted_settings parse env" "settings_ok (wanted_settings parse env)"
    by (simp_all add: settings_ticks settings_Start sched_ok_def)
  with join_cluster_ok [OF j] st show ?thesis by (auto simp: NewWithToken_def split: if_splits)
qed

text \<open>A node that joins a cluster file in which another node, with a lesser id, is alive.\<close>

definition demo_cluster :: "nodes cluster_env" where
  "demo_cluster = \<lparr>memory_registry = NewMemoryRegistry,
     open_registry = (\<lambda>_. Inr (snd (MemoryRegistry_Renew ''a'' 10000000000 1 NewMemoryRegistry))), reg_renew = MemoryRegistry_Renew\<rparr>"

definition demo_environ :: "string \<Rightarrow> string" where
  "demo_environ k = (if k = ''JOBRAFT_NODE_ID'' then ''b'' else if k = ''JOBRAFT_CLUSTER_FILE'' then ''nodes.json''
     else if k = ''JOBRAFT_WORKERS'' then ''1'' else [])"

definition demo_store :: "store_choice \<Rightarrow> error + memory_store" where
  "demo_store ch = Inr \<lparr>mtasks = [(''t'', zero_task\<lparr>ID := ''t'', Name := ''echo'', Status := StatusPending, RunAt := 1,
     Retry := \<lparr>MaxAttempts = 1, Backoff = 0\<rparr>\<rparr>)], mworkers = []\<rparr>"

definition demo_start :: "clock list \<Rightarrow> string + (memory_store, nodes) process" where
  "demo_start ticks = main_start memory_ops demo_store demo_cluster (\<lambda>_. Inl (ErrNew ''invalid duration'')) \<lparr>processTag = [], idCounter = 0\<rparr> demo_environ
     (\<lambda>_. 5) ticks 7"

theorem main_settings_witness:
  "\<exists>p. demo_start [] = Inr p \<and> settings (sched (apiServer p)) = (1, 100000000, 30000000000, 100)"
proof -
  have "case demo_start [] of Inl _ \<Rightarrow> False | Inr _ \<Rightarrow> True" by code_simp
  then obtain p where p: "demo_start [] = Inr p" by (auto split: sum.splits)
  have w: "wanted_settings (\<lambda>_. Inl (ErrNew ''invalid duration'')) demo_environ = (1, 100000000, 30000000000, 100)" by code_simp
  from main_settings [OF p [unfolded demo_start_def]] w p show ?thesis by simp
qed


end
