(* ===== verification/Spec2Isabelle.thy ===== *)
theory Spec2Isabelle
  imports Concurrency Election Consensus File_Store File_Registry Lock_Protocol Postgres Worker_Protocol Server_Command
begin

text \<open>
  JobRaft, a task scheduler in Go (\<^verbatim>\<open>src/\<close>): a verification development.
\<close>

end
